theory Spec2Isabelle
  imports Complex_Main "HOL-Library.Sublist" "HOL-Library.AList"
begin

section \<open>Python values used by the council orchestrator\<close>

text \<open>
  The orchestrator of \<^verbatim>\<open>src/council.py\<close> is embedded function by function.
  A Python \<^verbatim>\<open>str\<close> is a sequence of code points; a \<^typ>\<open>string\<close> is a list of
  \<^typ>\<open>char\<close>, one for each code point, so the model covers the texts whose code points
  lie below 256. On these, \<^verbatim>\<open>strip\<close>, \<^verbatim>\<open>lower\<close> and \<^verbatim>\<open>upper\<close> are as Python has them:
  the white space is the twelve code points listed in \<open>isspace\<close>, lower-casing stays
  below 256, and upper-casing leaves the range in three places (\<open>0xB5\<close>, \<open>0xDF\<close> and
  \<open>0xFF\<close>), which is why \<open>upper\<close> returns code points rather than a \<^typ>\<open>string\<close>.
  A Python \<^verbatim>\<open>dict\<close> is an association
  list with distinct keys in insertion order: \<^verbatim>\<open>d[k] = v\<close> is \<^const>\<open>AList.update\<close>
  (an existing key keeps its place, a new one goes to the end), \<^verbatim>\<open>d.get(k)\<close> is
  \<^const>\<open>map_of\<close>. Wall-clock readings (\<^verbatim>\<open>time.time()\<close>, the \<^verbatim>\<open>timestamp\<close> of a
  message) and the text printed when \<^verbatim>\<open>verbose\<close> is set are not part of the model.
\<close>

type_synonym ('k, 'v) dict = "('k \<times> 'v) list"

definition dict_get :: "('k, 'v) dict \<Rightarrow> 'k \<Rightarrow> 'v \<Rightarrow> 'v" where
  \<comment> \<open>\<^verbatim>\<open>d.get(k, default)\<close>\<close>
  "dict_get d k dflt = (case map_of d k of None \<Rightarrow> dflt | Some v \<Rightarrow> v)"

definition dict_merge :: "('k, 'v) dict \<Rightarrow> ('k, 'v) dict \<Rightarrow> ('k, 'v) dict" where
  \<comment> \<open>\<^verbatim>\<open>{**a, **b}\<close>\<close>
  "dict_merge a b = fold (\<lambda>(k, v). AList.update k v) b a"

definition newline :: string where
  "newline = [CHR 0x0A]"

fun join :: "string \<Rightarrow> string list \<Rightarrow> string" where
  \<comment> \<open>\<^verbatim>\<open>sep.join(xs)\<close>\<close>
  "join sep [] = []"
| "join sep [x] = x"
| "join sep (x # y # ys) = x @ sep @ join sep (y # ys)"

definition isspace :: "char \<Rightarrow> bool" where
  \<comment> \<open>\<^verbatim>\<open>str.isspace\<close> on a code point below 256; \<open>133\<close> and \<open>160\<close> are \<open>U+0085\<close> and \<open>U+00A0\<close>\<close>
  "isspace c = ((of_char c :: nat) \<in> set [9, 10, 11, 12, 13, 28, 29, 30, 31, 32, 133, 160])"

definition strip :: "string \<Rightarrow> string" where
  \<comment> \<open>\<^verbatim>\<open>s.strip()\<close>\<close>
  "strip s = rev (dropWhile isspace (rev (dropWhile isspace s)))"

definition points_of :: "string \<Rightarrow> nat list" where
  \<comment> \<open>the code points of a text\<close>
  "points_of s = map of_char s"

definition upper_points :: "char \<Rightarrow> nat list" where
  \<comment> \<open>\<^verbatim>\<open>c.upper()\<close> for a code point below 256: \<open>0xB5\<close> becomes \<open>U+039C\<close>, \<open>0xDF\<close> becomes
     \<^verbatim>\<open>SS\<close>, \<open>0xFF\<close> becomes \<open>U+0178\<close>, and \<open>0xF7\<close> has no case\<close>
  "upper_points c =
     (let n = (of_char c :: nat)
      in if 97 \<le> n \<and> n \<le> 122 then [n - 32]
         else if n = 181 then [924]
         else if n = 223 then [83, 83]
         else if 224 \<le> n \<and> n \<le> 254 \<and> n \<noteq> 247 then [n - 32]
         else if n = 255 then [376]
         else [n])"

definition lower_char :: "char \<Rightarrow> char" where
  \<comment> \<open>\<^verbatim>\<open>c.lower()\<close> for a code point below 256: \<open>0xD7\<close> has no case\<close>
  "lower_char c =
     (let n = (of_char c :: nat)
      in if (65 \<le> n \<and> n \<le> 90) \<or> (192 \<le> n \<and> n \<le> 222 \<and> n \<noteq> 215) then char_of (n + 32) else c)"

definition upper :: "string \<Rightarrow> nat list" where
  \<comment> \<open>the code points of \<^verbatim>\<open>s.upper()\<close>\<close>
  "upper s = concat (map upper_points s)"

definition lower :: "string \<Rightarrow> string" where
  "lower s = map lower_char s"

definition startswith :: "'a list \<Rightarrow> 'a list \<Rightarrow> bool" where
  \<comment> \<open>\<^verbatim>\<open>s.startswith(p)\<close>\<close>
  "startswith s p = prefix p s"

definition contains :: "string \<Rightarrow> string \<Rightarrow> bool" where
  \<comment> \<open>\<^verbatim>\<open>p in s\<close> for strings\<close>
  "contains s p = sublist p s"

definition last10 :: "string list \<Rightarrow> string list" where
  \<comment> \<open>\<^verbatim>\<open>h[-10:] if len(h) > 10 else h\<close>\<close>
  "last10 h = (if length h > 10 then drop (length h - 10) h else h)"

section \<open>Configuration, agents and state\<close>

text \<open>
  A persona is an external collaborator: a call either returns a text or raises an
  exception, of which the orchestrator only uses \<^verbatim>\<open>str(e)\<close>.
\<close>

datatype reply = Returned string | Raised string

record agent =
  analyze :: "string \<Rightarrow> reply"
  chat_response :: "string \<Rightarrow> string \<Rightarrow> string \<Rightarrow> reply"

datatype pyval = Text string | Seq "string list"

record synthesis_output =
  summary :: string
  agreements :: "string list"
  conflicts :: "string list"
  blind_spots :: "string list"
  final_options :: "string list"

definition model_dump :: "synthesis_output \<Rightarrow> (string, pyval) dict" where
  \<comment> \<open>the dictionary that \<^verbatim>\<open>SynthesisAgent.synthesize\<close> returns, on each of its three paths\<close>
  "model_dump s =
     [(''summary'', Text (summary s)),
      (''agreements'', Seq (agreements s)),
      (''conflicts'', Seq (conflicts s)),
      (''blind_spots'', Seq (blind_spots s)),
      (''final_options'', Seq (final_options s))]"

record breakdown =
  weight :: real
  response_preview :: string

record decision =
  decision_method :: string
  weights_used :: "(string, real) dict option"
  synthesis_summary :: pyval
  recommended_options :: pyval
  weight_breakdown :: "(string, breakdown) dict option"
  decision_agent_responses :: "(string, string) dict option"
  key_agreements :: pyval
  key_conflicts :: pyval
  identified_blind_spots :: pyval

record chat_message =
  agent_of :: string
  message :: string

record council_state =
  problem_statement :: string
  agent_responses :: "(string, string) dict"
  debate_rounds :: "chat_message list list"
  synthesis_result :: "(string, pyval) dict option"
  final_decision :: "decision option"
  current_step :: real
  metadata :: "(string, string) dict"
  messages :: "string list"
  group_chat :: "chat_message list option"
  conversation_history :: "string list option"

definition AGENT_NAME_MAPPING :: "(string, string) dict" where
  "AGENT_NAME_MAPPING =
     [(''Visionary'', ''Elon''), (''Strategist'', ''Sam''),
      (''Operator'', ''Sheryl''), (''Risk Analyst'', ''Ray'')]"

definition AGENT_WEIGHTS :: "(string, real) dict" where
  "AGENT_WEIGHTS =
     [(''Visionary'', 0.35), (''Strategist'', 0.30),
      (''Operator'', 0.20), (''Risk Analyst'', 0.15)]"

datatype error = AttributeError | CallFailed string

record orchestrator =
  visionary :: agent
  strategist :: agent
  operator :: agent
  risk_analyst :: agent
  synthesis :: "string \<Rightarrow> (string, string) dict \<Rightarrow> error + synthesis_output"
  use_weighted_model :: bool
  weights :: "(string, real) dict"

definition init ::
  "agent \<Rightarrow> agent \<Rightarrow> agent \<Rightarrow> agent \<Rightarrow> (string \<Rightarrow> (string, string) dict \<Rightarrow> error + synthesis_output) \<Rightarrow>
   bool \<Rightarrow> (string, real) dict option \<Rightarrow> orchestrator" where
  \<comment> \<open>\<^verbatim>\<open>CouncilOrchestrator.__init__\<close>; the agents and \<open>syn\<close> stand for the clients it builds.
     An absent and an empty \<^verbatim>\<open>custom_weights\<close> are both falsy.\<close>
  "init v s opr r syn weighted custom_weights =
     \<lparr> visionary = v, strategist = s, operator = opr, risk_analyst = r, synthesis = syn,
       use_weighted_model = weighted,
       weights = (case custom_weights of
                    None \<Rightarrow> AGENT_WEIGHTS
                  | Some cw \<Rightarrow> if cw \<noteq> [] then dict_merge AGENT_WEIGHTS cw else AGENT_WEIGHTS) \<rparr>"

section \<open>The decision aggregator\<close>

definition preview :: "string \<Rightarrow> string" where
  \<comment> \<open>\<^verbatim>\<open>response[:200] + "..." if len(response) > 200 else response\<close>\<close>
  "preview response = (if length response > 200 then take 200 response @ ''...'' else response)"

definition response_for :: "(string, string) dict \<Rightarrow> string \<Rightarrow> string \<Rightarrow> string" where
  \<comment> \<open>\<^verbatim>\<open>agent_responses.get(role_name) or agent_responses.get(normal_name, "")\<close>\<close>
  "response_for responses role_name normal_name =
     (case map_of responses role_name of
        Some r \<Rightarrow> if r \<noteq> [] then r else dict_get responses normal_name []
      | None \<Rightarrow> dict_get responses normal_name [])"

definition breakdown_step :: "(string, string) dict \<Rightarrow> string \<times> real \<Rightarrow> (string, breakdown) dict \<Rightarrow> (string, breakdown) dict" where
  \<comment> \<open>the body of the loop over \<^verbatim>\<open>self.weights.items()\<close>\<close>
  "breakdown_step responses = (\<lambda>(role_name, w) weight_breakdown.
     let normal_name = dict_get AGENT_NAME_MAPPING role_name role_name;
         response = response_for responses role_name normal_name
     in AList.update normal_name \<lparr> weight = w, response_preview = preview response \<rparr> weight_breakdown)"

definition weighted_decision :: "orchestrator \<Rightarrow> (string, string) dict \<Rightarrow> (string, pyval) dict \<Rightarrow> decision" where
  \<comment> \<open>\<^verbatim>\<open>_weighted_decision\<close>\<close>
  "weighted_decision self responses syn =
     (let options = dict_get syn ''final_options'' (Seq []);
          wb = fold (breakdown_step responses) (weights self) []
      in \<lparr> decision_method = ''weighted_model'',
           weights_used = Some (fold (\<lambda>(k, v). AList.update (dict_get AGENT_NAME_MAPPING k k) v) (weights self) []),
           synthesis_summary = dict_get syn ''summary'' (Text []),
           recommended_options = options,
           weight_breakdown = Some wb,
           decision_agent_responses = None,
           key_agreements = dict_get syn ''agreements'' (Seq []),
           key_conflicts = dict_get syn ''conflicts'' (Seq []),
           identified_blind_spots = dict_get syn ''blind_spots'' (Seq []) \<rparr>)"

definition majority_voting :: "orchestrator \<Rightarrow> (string, string) dict \<Rightarrow> (string, pyval) dict \<Rightarrow> decision" where
  \<comment> \<open>\<^verbatim>\<open>_majority_voting\<close>\<close>
  "majority_voting self responses syn =
     (let options = dict_get syn ''final_options'' (Seq [])
      in \<lparr> decision_method = ''majority_voting'',
           weights_used = None,
           synthesis_summary = dict_get syn ''summary'' (Text []),
           recommended_options = options,
           weight_breakdown = None,
           decision_agent_responses =
             Some (fold (\<lambda>(a, response). AList.update a (preview response)) responses []),
           key_agreements = dict_get syn ''agreements'' (Seq []),
           key_conflicts = dict_get syn ''conflicts'' (Seq []),
           identified_blind_spots = dict_get syn ''blind_spots'' (Seq []) \<rparr>)"

definition step_3_synthesis :: "orchestrator \<Rightarrow> council_state \<Rightarrow> error + council_state" where
  \<comment> \<open>\<^verbatim>\<open>step_3_synthesis\<close>; an exception of the synthesis client is not caught\<close>
  "step_3_synthesis self state =
     (let role_responses =
            fold (\<lambda>(role_name, normal_name).
                    AList.update role_name (response_for (agent_responses state) role_name normal_name))
                 AGENT_NAME_MAPPING []
      in case synthesis self (problem_statement state) role_responses of
           Inl e \<Rightarrow> Inl e
         | Inr out \<Rightarrow> Inr (state\<lparr> synthesis_result := Some (model_dump out), current_step := 3 \<rparr>))"

definition step_4_final_decision :: "orchestrator \<Rightarrow> council_state \<Rightarrow> error + council_state" where
  \<comment> \<open>\<^verbatim>\<open>step_4_final_decision\<close>; with no synthesis stored, \<^verbatim>\<open>None.get\<close> raises\<close>
  "step_4_final_decision self state =
     (case synthesis_result state of
        None \<Rightarrow> Inl AttributeError
      | Some syn \<Rightarrow>
          let d = (if use_weighted_model self
                   then weighted_decision self (agent_responses state) syn
                   else majority_voting self (agent_responses state) syn)
          in Inr (state\<lparr> final_decision := Some d, current_step := 4 \<rparr>))"

section \<open>Broadcast and parallel responses\<close>

text \<open>
  A future has an identity (two futures are the same object iff their \<open>fid\<close> agree),
  the time at which its call completes, counted from the submission, and what the call
  does then. The pool has four workers and at most four tasks, so every call starts when
  it is submitted. \<open>latency\<close> gives the completion time of each persona's call.
\<close>

record future =
  fid :: nat
  done_at :: nat
  outcome :: reply

definition step_1_broadcast :: "string \<Rightarrow> council_state" where
  "step_1_broadcast problem =
     \<lparr> problem_statement = problem, agent_responses = [], debate_rounds = [],
       synthesis_result = None, final_decision = None, current_step = 1,
       metadata = [], messages = [], group_chat = None, conversation_history = None \<rparr>"

definition analyze_futures :: "orchestrator \<Rightarrow> (string \<Rightarrow> nat) \<Rightarrow> string \<Rightarrow> (string, future) dict" where
  \<comment> \<open>the four \<^verbatim>\<open>executor.submit(agent.analyze, problem)\<close> and the dictionary \<^verbatim>\<open>futures\<close>\<close>
  "analyze_futures self latency problem =
     [(''Visionary'', \<lparr> fid = 0, done_at = latency ''Visionary'', outcome = analyze (visionary self) problem \<rparr>),
      (''Strategist'', \<lparr> fid = 1, done_at = latency ''Strategist'', outcome = analyze (strategist self) problem \<rparr>),
      (''Operator'', \<lparr> fid = 2, done_at = latency ''Operator'', outcome = analyze (operator self) problem \<rparr>),
      (''Risk Analyst'', \<lparr> fid = 3, done_at = latency ''Risk Analyst'', outcome = analyze (risk_analyst self) problem \<rparr>)]"

definition find_role :: "(string, future) dict \<Rightarrow> future \<Rightarrow> string option" where
  \<comment> \<open>the inner loop that looks for the role a completed future belongs to\<close>
  "find_role futures fut = map_option fst (find (\<lambda>(name, f). f = fut) futures)"

definition record_response :: "(string, future) dict \<Rightarrow> future \<Rightarrow> (string, string) dict \<Rightarrow> (string, string) dict" where
  \<comment> \<open>the body of the loop over \<^verbatim>\<open>as_completed\<close>: \<^verbatim>\<open>future.result()\<close> has no timeout here\<close>
  "record_response futures fut responses =
     (case find_role futures fut of
        None \<Rightarrow> responses
      | Some agent_role \<Rightarrow>
          if agent_role = [] then responses
          else
            let agent_display_name = dict_get AGENT_NAME_MAPPING agent_role agent_role
            in (case outcome fut of
                  Returned result \<Rightarrow>
                    AList.update agent_role result (AList.update agent_display_name result responses)
                | Raised e \<Rightarrow>
                    AList.update agent_role (''Error: '' @ e)
                      (AList.update agent_display_name (''Error: '' @ e) responses)))"

definition step_2_parallel_responses ::
  "orchestrator \<Rightarrow> (string \<Rightarrow> nat) \<Rightarrow> (future list \<Rightarrow> future list) \<Rightarrow> council_state \<Rightarrow> council_state" where
  \<comment> \<open>\<open>as_completed\<close> is the order in which the pool hands the futures back\<close>
  "step_2_parallel_responses self latency as_completed state =
     (let futures = analyze_futures self latency (problem_statement state);
          responses = fold (record_response futures) (as_completed (map snd futures)) []
      in state\<lparr> agent_responses := responses, current_step := 2 \<rparr>)"

section \<open>One round of group chat\<close>

record call =
  call_agent :: string
  call_message :: string
  call_context :: string

definition agents_of :: "orchestrator \<Rightarrow> (string, agent) dict" where
  "agents_of self =
     [(''Elon'', visionary self), (''Sam'', strategist self),
      (''Sheryl'', operator self), (''Ray'', risk_analyst self)]"

definition invoke :: "agent \<Rightarrow> call \<Rightarrow> reply" where
  \<comment> \<open>\<^verbatim>\<open>agent.chat_response(user_message, conversation_context, agent_name)\<close>\<close>
  "invoke a c = chat_response a (call_message c) (call_context c) (call_agent c)"

definition first_round_prompt :: "string list \<Rightarrow> string" where
  "first_round_prompt h =
     (let user_messages = filter (\<lambda>msg. startswith msg ''You:'') h
      in if user_messages \<noteq> [] then last user_messages else if h \<noteq> [] then hd h else [])"

definition later_round_prompt :: "string \<Rightarrow> string" where
  \<open>later_round_prompt ctx =
     ''The group is discussing:'' @ newline @ newline @ ctx @ newline @ newline @
     ''Do you have something to add? Only respond if you have something relevant to say. If you don't have anything to add, respond with just 'SKIP'.''\<close>

definition chose_skip :: "string \<Rightarrow> bool" where
  \<comment> \<open>\<^verbatim>\<open>response.strip().upper() == "SKIP" or response.strip().upper().startswith("SKIP")\<close>\<close>
  "chose_skip response =
     (upper (strip response) = points_of ''SKIP'' \<or>
      startswith (upper (strip response)) (points_of ''SKIP''))"

definition transcript_line :: "string \<Rightarrow> string \<Rightarrow> string" where
  \<comment> \<open>\<^verbatim>\<open>f"{agent_name}: {response}"\<close>\<close>
  "transcript_line agent_name response = agent_name @ '': '' @ response"

definition future_result :: "future \<Rightarrow> nat \<Rightarrow> nat \<Rightarrow> reply \<times> nat" where
  \<comment> \<open>\<^verbatim>\<open>future.result(timeout=t)\<close> called at time \<open>now\<close>: the outcome of the call if it is
     there by \<open>now + t\<close>, else a \<^verbatim>\<open>TimeoutError\<close>, whose \<^verbatim>\<open>str\<close> is empty; and the time after\<close>
  "future_result fut now t =
     (if done_at fut \<le> now + t then (outcome fut, max now (done_at fut))
      else (Raised [], now + t))"

fun collect :: "(string, future) dict \<Rightarrow> nat \<Rightarrow> chat_message list \<times> string list \<Rightarrow> chat_message list \<times> string list" where
  \<comment> \<open>the loop over \<^verbatim>\<open>futures.items()\<close>; an exception of a call, a timeout included, is only printed\<close>
  "collect [] now (new_messages, h) = (new_messages, h)"
| "collect ((agent_name, fut) # rest) now (new_messages, h) =
     (case future_result fut now 60 of
        (Returned response, now') \<Rightarrow>
          if chose_skip response then collect rest now' (new_messages, h)
          else collect rest now'
                 (new_messages @ [\<lparr> agent_of = agent_name, message = response \<rparr>],
                  h @ [transcript_line agent_name response])
      | (Raised e, now') \<Rightarrow> collect rest now' (new_messages, h))"

record round_result =
  round_messages :: "chat_message list"
  round_history :: "string list"
  round_calls :: "call list"

definition round_call :: "string list \<Rightarrow> bool \<Rightarrow> string \<Rightarrow> call" where
  \<comment> \<open>the arguments that the submission loop computes for one persona\<close>
  "round_call h is_first_round agent_name =
     (let conversation_context = join newline (last10 h);
          prompt = (if is_first_round then first_round_prompt h
                    else later_round_prompt conversation_context)
      in \<lparr> call_agent = agent_name, call_message = prompt, call_context = conversation_context \<rparr>)"

definition run_one_round :: "orchestrator \<Rightarrow> (string \<Rightarrow> nat) \<Rightarrow> string list \<Rightarrow> bool \<Rightarrow> round_result" where
  \<comment> \<open>\<^verbatim>\<open>run_one_round\<close>: the returned list, the history list it appends to, and the calls it submits\<close>
  "run_one_round self latency h is_first_round =
     (let submitted = map (\<lambda>(i, agent_name, a).
                             (let c = round_call h is_first_round agent_name
                              in (c, \<lparr> fid = i, done_at = latency agent_name, outcome = invoke a c \<rparr>)))
                          (enumerate 0 (agents_of self));
          futures = map (\<lambda>(c, fut). (call_agent c, fut)) submitted;
          (new_messages, h') = collect futures 0 ([], h)
      in \<lparr> round_messages = new_messages, round_history = h', round_calls = map fst submitted \<rparr>)"

section \<open>The multi-round debate step\<close>

definition conversation_prompt :: "string \<Rightarrow> string" where
  "conversation_prompt ctx =
     ''The group is discussing:'' @ newline @ newline @ ctx @ newline @ newline @
     ''What do you think? Respond naturally to the conversation.''"

definition debate_turn ::
  "string \<times> agent \<Rightarrow> string list \<times> chat_message list \<times> call list \<Rightarrow> string list \<times> chat_message list \<times> call list" where
  \<comment> \<open>the body of the loop over \<^verbatim>\<open>agents.items()\<close> in \<^verbatim>\<open>step_2_5_debate\<close>\<close>
  "debate_turn = (\<lambda>(agent_name, a) (h, msgs, cs).
     let recent_messages = last10 h;
         conversation_context = join newline recent_messages;
         c = \<lparr> call_agent = agent_name, call_message = conversation_prompt conversation_context,
               call_context = conversation_context \<rparr>
     in case invoke a c of
          Returned response \<Rightarrow>
            (h @ [transcript_line agent_name response],
             msgs @ [\<lparr> agent_of = agent_name, message = response \<rparr>], cs @ [c])
        | Raised e \<Rightarrow>
            (let error_msg = ''Error: '' @ e
             in (h @ [transcript_line agent_name error_msg],
                 msgs @ [\<lparr> agent_of = agent_name, message = error_msg \<rparr>], cs @ [c])))"

definition initial_history :: "council_state \<Rightarrow> string list" where
  \<comment> \<open>the conversation history that \<^verbatim>\<open>step_2_5_debate\<close> builds before its first round: a line
     for each initial response, under the display name\<close>
  "initial_history state =
     (let initial_responses =
            fold (\<lambda>(full_name, short_name) d.
                    case map_of (agent_responses state) full_name of
                      Some r \<Rightarrow> AList.update short_name r d
                    | None \<Rightarrow> d)
                 AGENT_NAME_MAPPING []
      in map (\<lambda>(name, response). transcript_line name response) initial_responses)"

definition step_2_5_debate :: "orchestrator \<Rightarrow> council_state \<Rightarrow> nat \<Rightarrow> council_state \<times> call list" where
  \<comment> \<open>\<^verbatim>\<open>step_2_5_debate\<close>: the new state, and the calls made, in order\<close>
  "step_2_5_debate self state rounds =
     (let h0 = initial_history state;
          (h, group_chat_messages, cs) =
            fold (\<lambda>round_num acc. fold debate_turn (agents_of self) acc) [0..<rounds] (h0, [], [])
      in (state\<lparr> group_chat := Some ((case group_chat state of None \<Rightarrow> [] | Some g \<Rightarrow> g) @ group_chat_messages),
                 current_step := 2.5 \<rparr>,
          cs))"

section \<open>The tagged debate\<close>

fun str_nat :: "nat \<Rightarrow> string" where
  \<comment> \<open>\<^verbatim>\<open>str(n)\<close> of a natural number\<close>
  "str_nat n = (if n < 10 then [char_of (48 + n)] else str_nat (n div 10) @ [char_of (48 + n mod 10)])"

definition debate_prompt :: "nat \<Rightarrow> string \<Rightarrow> string \<Rightarrow> string \<Rightarrow> string" where
  \<open>debate_prompt exchange agent_name user_msg ctx =
     (if exchange = 0 then
        ''You are '' @ agent_name @ '' in a focused debate/discussion. The user asked: "'' @ user_msg @ ''"'' @
        newline @ newline @ ''RECENT CONVERSATION:'' @ newline @ ctx @ newline @ newline @
        ''Respond to the user's request. This is exchange 1 of up to 3. Try to make progress toward closing the topic. Be direct and substantive.''
      else
        ''You are '' @ agent_name @ '' in a focused debate/discussion. '' @
        newline @ newline @ ''RECENT CONVERSATION:'' @ newline @ ctx @ newline @ newline @
        ''This is exchange '' @ str_nat (exchange + 1) @
        '' of up to 3. Respond to what others said. Try to move toward closing the topic - agree, disagree, or propose a resolution. If the topic feels resolved, you can acknowledge that.'')\<close>

definition closing_signals :: "string list" where
  \<open>closing_signals =
     [''agree'', ''sounds good'', ''makes sense'', ''resolved'', ''i think we're done'', ''that works'']\<close>

definition is_closing :: "chat_message list \<Rightarrow> bool" where
  \<comment> \<open>the test that ends the loop over the exchanges\<close>
  "is_closing exchange_messages =
     (exchange_messages \<noteq> [] \<and>
      (let last_responses = map (\<lambda>msg. lower (message msg)) exchange_messages
       in list_ex (\<lambda>response. list_ex (\<lambda>signal. contains response signal) closing_signals) last_responses))"

definition exchange_turn ::
  "nat \<Rightarrow> string \<Rightarrow> string \<Rightarrow> string \<times> agent \<Rightarrow>
   string list \<times> chat_message list \<times> call list \<Rightarrow> string list \<times> chat_message list \<times> call list" where
  \<comment> \<open>one tagged agent's turn in an exchange; an exception is only printed\<close>
  "exchange_turn exchange user_msg ctx = (\<lambda>(agent_name, a) (dh, exchange_messages, cs).
     let c = \<lparr> call_agent = agent_name, call_message = debate_prompt exchange agent_name user_msg ctx,
               call_context = ctx \<rparr>
     in case invoke a c of
          Returned response \<Rightarrow>
            (dh @ [transcript_line agent_name response],
             exchange_messages @ [\<lparr> agent_of = agent_name, message = response \<rparr>], cs @ [c])
        | Raised e \<Rightarrow> (dh, exchange_messages, cs @ [c]))"

type_synonym exchange_log = "(chat_message list \<times> call list) list"

fun exchange_loop ::
  "(string, agent) dict \<Rightarrow> string \<Rightarrow> nat list \<Rightarrow>
   string list \<times> chat_message list \<times> exchange_log \<Rightarrow> string list \<times> chat_message list \<times> exchange_log" where
  \<comment> \<open>\<^verbatim>\<open>for exchange in range(max_exchanges)\<close> with its \<^verbatim>\<open>break\<close>; the log keeps, for every
     exchange run, its messages and its calls\<close>
  "exchange_loop participating user_msg [] st = st"
| "exchange_loop participating user_msg (exchange # rest) (dh, debate_msgs, trace) =
     (let ctx = join newline (last10 dh);
          (dh', exchange_messages, cs) =
             fold (exchange_turn exchange user_msg ctx) participating (dh, [], []);
          debate_msgs' = debate_msgs @ exchange_messages;
          trace' = trace @ [(exchange_messages, cs)]
      in if is_closing exchange_messages then (dh', debate_msgs', trace')
         else exchange_loop participating user_msg rest (dh', debate_msgs', trace'))"

record debate_result =
  debate_messages :: "chat_message list"
  debate_history :: "string list"
  debate_exchanges :: exchange_log

definition participating_agents :: "orchestrator \<Rightarrow> string list \<Rightarrow> (string, agent) dict" where
  \<comment> \<open>\<^verbatim>\<open>{name: agents[name] for name in tagged_agents if name in agents}\<close>\<close>
  "participating_agents self tagged_agents =
     fold (\<lambda>name d. case map_of (agents_of self) name of Some a \<Rightarrow> AList.update name a d | None \<Rightarrow> d)
          tagged_agents []"

definition run_tagged_debate :: "orchestrator \<Rightarrow> string list \<Rightarrow> string \<Rightarrow> string list \<Rightarrow> debate_result" where
  \<comment> \<open>\<^verbatim>\<open>run_tagged_debate\<close>: the returned list, the caller's history list after the call,
     and the log of the exchanges\<close>
  "run_tagged_debate self tagged_agents user_msg h =
     (let participating = participating_agents self tagged_agents
      in if participating = [] then \<lparr> debate_messages = [], debate_history = h, debate_exchanges = [] \<rparr>
         else
           let dh0 = h @ [''You: '' @ user_msg];
               max_exchanges = 3;
               (dh, debate_msgs, trace) =
                  exchange_loop participating user_msg [0..<max_exchanges] (dh0, [], [])
           in \<lparr> debate_messages = debate_msgs,
                debate_history = h @ map (\<lambda>msg. transcript_line (agent_of msg) (message msg)) debate_msgs,
                debate_exchanges = trace \<rparr>)"

section \<open>Group chat and the full protocol\<close>

type_synonym round_log = "(bool \<times> round_result) list"

definition chat_round ::
  "orchestrator \<Rightarrow> (nat \<Rightarrow> string \<Rightarrow> nat) \<Rightarrow> nat \<Rightarrow>
   string list \<times> chat_message list \<times> round_log \<Rightarrow> string list \<times> chat_message list \<times> round_log" where
  \<comment> \<open>the body of \<^verbatim>\<open>for round_num in range(1, chat_rounds)\<close>: an empty round only prints a line\<close>
  "chat_round self latency round_num = (\<lambda>(h, group_chat_messages, trace).
     let r = run_one_round self (latency round_num) h False
     in (round_history r, group_chat_messages @ round_messages r, trace @ [(False, r)]))"

definition run_group_chat ::
  "orchestrator \<Rightarrow> (nat \<Rightarrow> string \<Rightarrow> nat) \<Rightarrow> string \<Rightarrow> int \<Rightarrow> council_state \<times> round_log" where
  \<comment> \<open>\<^verbatim>\<open>run_group_chat\<close>: the state returned, and for every call of \<^verbatim>\<open>run_one_round\<close>, in
     order, its \<^verbatim>\<open>is_first_round\<close> argument and its result\<close>
  "run_group_chat self latency user_msg chat_rounds =
     (let state = \<lparr> problem_statement = user_msg, agent_responses = [], debate_rounds = [],
                    synthesis_result = None, final_decision = None, current_step = 1,
                    metadata = [], messages = [], group_chat = None, conversation_history = None \<rparr>;
          h0 = [''You: '' @ user_msg];
          r1 = run_one_round self (latency 0) h0 True;
          (h, group_chat_messages, trace) =
             fold (chat_round self latency) [1..<nat chat_rounds]
                  (round_history r1, round_messages r1, [(True, r1)])
      in (state\<lparr> group_chat := Some group_chat_messages, conversation_history := Some h \<rparr>, trace))"

definition run_council ::
  "orchestrator \<Rightarrow> (string \<Rightarrow> nat) \<Rightarrow> (future list \<Rightarrow> future list) \<Rightarrow> string \<Rightarrow> error + council_state" where
  \<comment> \<open>\<^verbatim>\<open>run_council\<close>\<close>
  "run_council self latency as_completed problem =
     (let state = step_1_broadcast problem;
          state = step_2_parallel_responses self latency as_completed state;
          state = fst (step_2_5_debate self state 2)
      in case step_3_synthesis self state of
           Inl e \<Rightarrow> Inl e
         | Inr state \<Rightarrow> step_4_final_decision self state)"

section \<open>Personas and sessions used as concrete inputs\<close>

definition say :: "string \<Rightarrow> agent" where
  \<comment> \<open>a persona whose every call returns the text \<open>s\<close>\<close>
  "say s = \<lparr> analyze = (\<lambda>_. Returned s), chat_response = (\<lambda>_ _ _. Returned s) \<rparr>"

definition failing :: "string \<Rightarrow> agent" where
  \<comment> \<open>a persona whose every call raises an exception with text \<open>e\<close>\<close>
  "failing e = \<lparr> analyze = (\<lambda>_. Raised e), chat_response = (\<lambda>_ _ _. Raised e) \<rparr>"

definition echo :: agent where
  \<comment> \<open>a persona that answers with the context it was given\<close>
  "echo = \<lparr> analyze = (\<lambda>problem. Returned problem), chat_response = (\<lambda>_ ctx _. Returned ctx) \<rparr>"

definition plain_synthesis :: "string \<Rightarrow> (string, string) dict \<Rightarrow> error + synthesis_output" where
  "plain_synthesis problem responses =
     Inr \<lparr> summary = ''Synthesis unavailable'', agreements = [], conflicts = [],
           blind_spots = [], final_options = [] \<rparr>"

definition council :: orchestrator where
  \<comment> \<open>default weights; Sheryl's calls fail, Ray abstains\<close>
  "council = init (say ''go'') (say ''wait'') (failing ''boom'') (say '' skip it'') plain_synthesis True None"

definition quiet_council :: orchestrator where
  \<comment> \<open>a council in which every persona skips or fails, in every round\<close>
  "quiet_council = init (say ''SKIP'') (say ''skip'') (failing ''boom'') (say '' Skip for now'') plain_synthesis True None"

definition sample_synthesis :: synthesis_output where
  "sample_synthesis =
     \<lparr> summary = ''two camps'', agreements = [''ship''], conflicts = [''when''],
       blind_spots = [''cost''], final_options = [''now'', ''later''] \<rparr>"

section \<open>Notions used to state the properties\<close>

definition reply_text :: "reply \<Rightarrow> string" where
  \<comment> \<open>what the broadcast step stores for the outcome of a call: \<^verbatim>\<open>result\<close> or \<^verbatim>\<open>f"Error: {str(e)}"\<close>\<close>
  "reply_text r = (case r of Returned s \<Rightarrow> s | Raised e \<Rightarrow> ''Error: '' @ e)"

definition writes :: "(string, future) dict \<Rightarrow> future \<Rightarrow> string \<Rightarrow> bool" where
  \<comment> \<open>the keys that the loop body assigns when it is handed the future \<open>fut\<close>\<close>
  "writes futures fut k =
     (case find_role futures fut of
        None \<Rightarrow> False
      | Some agent_role \<Rightarrow> agent_role \<noteq> [] \<and> (k = agent_role \<or> k = dict_get AGENT_NAME_MAPPING agent_role agent_role))"

definition contribution :: "string \<Rightarrow> reply \<Rightarrow> chat_message list" where
  \<comment> \<open>what a reply that was received adds to a round: nothing for an exception or a skip\<close>
  "contribution agent_name r =
     (case r of
        Returned response \<Rightarrow>
          if chose_skip response then [] else [\<lparr> agent_of = agent_name, message = response \<rparr>]
      | Raised e \<Rightarrow> [])"

fun received :: "(string, future) dict \<Rightarrow> nat \<Rightarrow> (string \<times> reply) list" where
  \<comment> \<open>what \<^verbatim>\<open>future.result(timeout=60)\<close> gives for each future, waited for in turn from time \<open>now\<close>\<close>
  "received [] now = []"
| "received ((agent_name, fut) # rest) now =
     (agent_name, fst (future_result fut now 60)) # received rest (snd (future_result fut now 60))"

definition line_of :: "chat_message \<Rightarrow> string" where
  "line_of m = transcript_line (agent_of m) (message m)"

definition agent_names :: "string list" where
  "agent_names = [''Elon'', ''Sam'', ''Sheryl'', ''Ray'']"

definition round_futures :: "orchestrator \<Rightarrow> (string \<Rightarrow> nat) \<Rightarrow> string list \<Rightarrow> bool \<Rightarrow> (string, future) dict" where
  \<comment> \<open>the dictionary \<^verbatim>\<open>futures\<close> of \<^verbatim>\<open>run_one_round\<close>\<close>
  "round_futures self latency h is_first_round =
     map (\<lambda>(i, agent_name, a).
            (agent_name, \<lparr> fid = i, done_at = latency agent_name,
                            outcome = invoke a (round_call h is_first_round agent_name) \<rparr>))
         (enumerate 0 (agents_of self))"

definition rounds_from ::
  "orchestrator \<Rightarrow> (nat \<Rightarrow> string \<Rightarrow> nat) \<Rightarrow> round_result \<Rightarrow> nat \<Rightarrow> string list \<times> chat_message list \<times> round_log" where
  \<comment> \<open>the loop of \<^verbatim>\<open>run_group_chat\<close> after \<open>k\<close> later rounds, started from the first round \<open>fr\<close>\<close>
  "rounds_from self latency fr k =
     fold (chat_round self latency) [1..<Suc k] (round_history fr, round_messages fr, [(True, fr)])"

section \<open>Properties of the decision aggregator\<close>

lemma dict_get_model_dump:
  "dict_get (model_dump s) ''summary'' d1 = Text (summary s)"
  "dict_get (model_dump s) ''agreements'' d2 = Seq (agreements s)"
  "dict_get (model_dump s) ''conflicts'' d3 = Seq (conflicts s)"
  "dict_get (model_dump s) ''blind_spots'' d4 = Seq (blind_spots s)"
  "dict_get (model_dump s) ''final_options'' d5 = Seq (final_options s)"
  by (simp_all add: dict_get_def model_dump_def)

lemma set_update_subset: "set (AList.update k v al) \<subseteq> insert (k, v) (set al)"
  by (induction al) auto

lemma update_fresh: "k \<notin> fst ` set al \<Longrightarrow> AList.update k v al = al @ [(k, v)]"
  by (induction al) auto

lemma fold_update_entries:
  "(k, v) \<in> set (fold (\<lambda>x. AList.update (f x) (g x)) xs acc) \<Longrightarrow>
     (k, v) \<in> set acc \<or> (\<exists>x \<in> set xs. k = f x \<and> v = g x)"
proof (induction xs arbitrary: acc)
  case Nil
  then show ?case by simp
next
  case (Cons x xs)
  from Cons.prems have "(k, v) \<in> set (fold (\<lambda>x. AList.update (f x) (g x)) xs (AList.update (f x) (g x) acc))"
    by simp
  from Cons.IH[OF this] show ?case
  proof
    assume "(k, v) \<in> set (AList.update (f x) (g x) acc)"
    with set_update_subset[of "f x" "g x" acc] have "(k, v) \<in> set acc \<or> (k = f x \<and> v = g x)"
      by auto
    then show ?thesis by auto
  next
    assume "\<exists>x\<in>set xs. k = f x \<and> v = g x"
    then show ?thesis by auto
  qed
qed

lemma fold_update_distinct:
  "distinct (map f xs) \<Longrightarrow> f ` set xs \<inter> fst ` set acc = {} \<Longrightarrow>
     fold (\<lambda>x. AList.update (f x) (g x)) xs acc = acc @ map (\<lambda>x. (f x, g x)) xs"
proof (induction xs arbitrary: acc)
  case Nil
  then show ?case by simp
next
  case (Cons x xs)
  from Cons.prems have fresh: "f x \<notin> fst ` set acc" by auto
  have step: "AList.update (f x) (g x) acc = acc @ [(f x, g x)]"
    by (rule update_fresh[OF fresh])
  from Cons.prems have "distinct (map f xs)" and "f ` set xs \<inter> fst ` set (acc @ [(f x, g x)]) = {}"
    by auto
  from Cons.IH[OF this] show ?case by (simp add: step)
qed

lemma dom_fold_update:
  "fst ` set (fold (\<lambda>x. AList.update (f x) (g x)) xs acc) = fst ` set acc \<union> f ` set xs"
  by (induction xs arbitrary: acc) (auto simp: dom_update)

lemma breakdown_step_alt:
  "breakdown_step responses =
     (\<lambda>x. AList.update (dict_get AGENT_NAME_MAPPING (fst x) (fst x))
            \<lparr> weight = snd x,
              response_preview = preview (response_for responses (fst x) (dict_get AGENT_NAME_MAPPING (fst x) (fst x))) \<rparr>)"
  by (auto simp: breakdown_step_def Let_def fun_eq_iff)

lemma weight_breakdown_entries:
  assumes "weight_breakdown (weighted_decision self responses syn) = Some wb"
      and "(n, b) \<in> set wb"
  shows "\<exists>role. (role, weight b) \<in> set (weights self) \<and> n = dict_get AGENT_NAME_MAPPING role role
           \<and> response_preview b = preview (response_for responses role n)"
proof -
  from assms have "(n, b) \<in> set (fold (breakdown_step responses) (weights self) [])"
    by (simp add: weighted_decision_def Let_def)
  then have "\<exists>x \<in> set (weights self). n = dict_get AGENT_NAME_MAPPING (fst x) (fst x) \<and>
      b = \<lparr> weight = snd x,
              response_preview = preview (response_for responses (fst x) (dict_get AGENT_NAME_MAPPING (fst x) (fst x))) \<rparr>"
    unfolding breakdown_step_alt by (drule_tac fold_update_entries) simp
  then obtain x where "x \<in> set (weights self)" "n = dict_get AGENT_NAME_MAPPING (fst x) (fst x)"
     "b = \<lparr> weight = snd x,
              response_preview = preview (response_for responses (fst x) (dict_get AGENT_NAME_MAPPING (fst x) (fst x))) \<rparr>"
    by blast
  then show ?thesis
    by (intro exI[of _ "fst x"]) simp
qed

lemma majority_previews:
  assumes "distinct (map fst responses)"
  shows "decision_agent_responses (majority_voting self responses syn) =
           Some (map (\<lambda>(a, r). (a, preview r)) responses)"
proof -
  have eq: "(\<lambda>(a, response). AList.update a (preview response)) = (\<lambda>x. AList.update (fst x) (preview (snd x)))"
    by (auto simp: fun_eq_iff)
  have eq2: "(\<lambda>(a, r). (a, preview r)) = (\<lambda>x. (fst x, preview (snd x)))"
    by (auto simp: fun_eq_iff)
  have "fold (\<lambda>x. AList.update (fst x) (preview (snd x))) responses [] = [] @ map (\<lambda>x. (fst x, preview (snd x))) responses"
    by (rule fold_update_distinct) (use assms in auto)
  then show ?thesis
    by (simp add: majority_voting_def Let_def eq eq2)
qed

lemma default_breakdown:
  "weight_breakdown (weighted_decision (init v s opr r sy b None) responses syn) =
     Some [(''Elon'', \<lparr> weight = 0.35, response_preview = preview (response_for responses ''Visionary'' ''Elon'') \<rparr>),
           (''Sam'', \<lparr> weight = 0.30, response_preview = preview (response_for responses ''Strategist'' ''Sam'') \<rparr>),
           (''Sheryl'', \<lparr> weight = 0.20, response_preview = preview (response_for responses ''Operator'' ''Sheryl'') \<rparr>),
           (''Ray'', \<lparr> weight = 0.15, response_preview = preview (response_for responses ''Risk Analyst'' ''Ray'') \<rparr>)]"
  by (simp add: weighted_decision_def init_def AGENT_WEIGHTS_def breakdown_step_def AGENT_NAME_MAPPING_def dict_get_def Let_def)

lemma map_of_fold_update:
  "map_of (fold (\<lambda>x. AList.update (f x) (g x)) xs acc) = map_of (rev (map (\<lambda>x. (f x, g x)) xs) @ acc)"
proof (induction xs arbitrary: acc)
  case Nil
  then show ?case by simp
next
  case (Cons x xs)
  have "map_of (fold (\<lambda>x. AList.update (f x) (g x)) (x # xs) acc)
      = map_of (rev (map (\<lambda>x. (f x, g x)) xs) @ AList.update (f x) (g x) acc)"
    using Cons.IH[of "AList.update (f x) (g x) acc"] by simp
  also have "\<dots> = map_of (rev (map (\<lambda>x. (f x, g x)) xs) @ (f x, g x) # acc)"
    by (simp only: map_of_append update_conv') simp
  finally show ?case by simp
qed

lemma distinct_fold_update:
  "distinct (map fst acc) \<Longrightarrow> distinct (map fst (fold (\<lambda>x. AList.update (f x) (g x)) xs acc))"
  by (induction xs arbitrary: acc) (simp_all add: distinct_update)

lemma map_update_value:
  "map (\<lambda>p. (fst p, F (snd p))) (AList.update k v al) = AList.update k (F v) (map (\<lambda>p. (fst p, F (snd p))) al)"
  by (induction al) auto

lemma map_fold_update_value:
  "map (\<lambda>p. (fst p, F (snd p))) (fold (\<lambda>x. AList.update (f x) (g x)) xs acc)
     = fold (\<lambda>x. AList.update (f x) (F (g x))) xs (map (\<lambda>p. (fst p, F (snd p))) acc)"
proof (induction xs arbitrary: acc)
  case Nil
  then show ?case by simp
next
  case (Cons x xs)
  show ?case
    using Cons.IH[of "AList.update (f x) (g x) acc"] by (simp add: map_update_value)
qed

lemma weights_used_alt:
  "weights_used (weighted_decision self responses syn)
     = Some (fold (\<lambda>x. AList.update (dict_get AGENT_NAME_MAPPING (fst x) (fst x)) (snd x)) (weights self) [])"
  by (simp add: weighted_decision_def Let_def case_prod_unfold)

lemma weight_breakdown_alt:
  "weight_breakdown (weighted_decision self responses syn)
     = Some (fold (\<lambda>x. AList.update (dict_get AGENT_NAME_MAPPING (fst x) (fst x))
            \<lparr> weight = snd x,
              response_preview = preview (response_for responses (fst x) (dict_get AGENT_NAME_MAPPING (fst x) (fst x))) \<rparr>)
          (weights self) [])"
  by (simp add: weighted_decision_def Let_def breakdown_step_alt)

lemma breakdown_weights_are_weights_used:
  "map_option (map (\<lambda>p. (fst p, weight (snd p)))) (weight_breakdown (weighted_decision self responses syn))
     = weights_used (weighted_decision self responses' syn')"
proof -
  let ?f = "\<lambda>x :: string \<times> real. dict_get AGENT_NAME_MAPPING (fst x) (fst x)"
  let ?g = "\<lambda>x :: string \<times> real. \<lparr> weight = snd x,
              response_preview = preview (response_for responses (fst x) (dict_get AGENT_NAME_MAPPING (fst x) (fst x))) \<rparr>"
  have "map (\<lambda>p. (fst p, weight (snd p))) (fold (\<lambda>x. AList.update (?f x) (?g x)) (weights self) [])
      = fold (\<lambda>x. AList.update (?f x) (weight (?g x))) (weights self) (map (\<lambda>p. (fst p, weight (snd p))) [])"
    using map_fold_update_value[where F = weight and f = ?f and g = ?g and xs = "weights self" and acc = "[]"]
    by simp
  then show ?thesis
    unfolding weights_used_alt weight_breakdown_alt by simp
qed

lemma weights_used_lookup:
  "\<exists>wu. weights_used (weighted_decision self responses syn) = Some wu
       \<and> distinct (map fst wu)
       \<and> map_of wu = map_of (rev (map (\<lambda>x. (dict_get AGENT_NAME_MAPPING (fst x) (fst x), snd x)) (weights self)))
       \<and> fst ` set wu = (\<lambda>x. dict_get AGENT_NAME_MAPPING (fst x) (fst x)) ` set (weights self)"
  unfolding weights_used_alt
  by (simp add: map_of_fold_update distinct_fold_update dom_fold_update)

lemma weights_used_distinct:
  assumes "distinct (map (\<lambda>x. dict_get AGENT_NAME_MAPPING (fst x) (fst x)) (weights self))"
  shows "weights_used (weighted_decision self responses syn)
     = Some (map (\<lambda>x. (dict_get AGENT_NAME_MAPPING (fst x) (fst x), snd x)) (weights self))"
proof -
  have "fold (\<lambda>x. AList.update (dict_get AGENT_NAME_MAPPING (fst x) (fst x)) (snd x)) (weights self) []
      = [] @ map (\<lambda>x. (dict_get AGENT_NAME_MAPPING (fst x) (fst x), snd x)) (weights self)"
    by (rule fold_update_distinct) (use assms in auto)
  then show ?thesis unfolding weights_used_alt by simp
qed

lemma default_weights_used:
  "weights_used (weighted_decision (init v s opr r sy b None) responses syn) =
     Some [(''Elon'', 0.35), (''Sam'', 0.30), (''Sheryl'', 0.20), (''Ray'', 0.15)]"
  by (simp add: weighted_decision_def init_def AGENT_WEIGHTS_def AGENT_NAME_MAPPING_def dict_get_def Let_def)

text \<open>
  C7. Both decision strategies return the synthesis result's final options as
  \<open>recommended_options\<close>, and copy its summary, agreements, conflicts and blind spots
  unchanged, for every map of agent responses and every synthesis result. Majority voting
  carries no weight at all. In the weighted decision nothing is recomputed or reselected:
  \<open>weights_used\<close> holds, under each display name, the weight that the configuration gives
  to the (last) role of that name and has no other key, it is the list of the configured
  weights under their display names when these names are distinct (with the default
  configuration: 0.35, 0.30, 0.20 and 0.15 for Elon, Sam, Sheryl and Ray), it depends
  neither on the responses nor on the synthesis result, and the weights of the breakdown
  are exactly those of \<open>weights_used\<close>, each the configured weight of a role of that name.
\<close>

theorem decision_copies_synthesis:
  "recommended_options (weighted_decision self responses (model_dump s)) = Seq (final_options s)
   \<and> recommended_options (majority_voting self responses (model_dump s)) = Seq (final_options s)
   \<and> synthesis_summary (weighted_decision self responses (model_dump s)) = Text (summary s)
   \<and> synthesis_summary (majority_voting self responses (model_dump s)) = Text (summary s)
   \<and> key_agreements (weighted_decision self responses (model_dump s)) = Seq (agreements s)
   \<and> key_agreements (majority_voting self responses (model_dump s)) = Seq (agreements s)
   \<and> key_conflicts (weighted_decision self responses (model_dump s)) = Seq (conflicts s)
   \<and> key_conflicts (majority_voting self responses (model_dump s)) = Seq (conflicts s)
   \<and> identified_blind_spots (weighted_decision self responses (model_dump s)) = Seq (blind_spots s)
   \<and> identified_blind_spots (majority_voting self responses (model_dump s)) = Seq (blind_spots s)
   \<and> weights_used (majority_voting self responses (model_dump s)) = None
   \<and> weight_breakdown (majority_voting self responses (model_dump s)) = None
   \<and> (\<forall>wb n b. weight_breakdown (weighted_decision self responses (model_dump s)) = Some wb \<and> (n, b) \<in> set wb
         \<longrightarrow> (\<exists>role. (role, weight b) \<in> set (weights self) \<and> n = dict_get AGENT_NAME_MAPPING role role))
   \<and> (\<exists>wu. weights_used (weighted_decision self responses (model_dump s)) = Some wu
         \<and> distinct (map fst wu)
         \<and> map_of wu = map_of (rev (map (\<lambda>x. (dict_get AGENT_NAME_MAPPING (fst x) (fst x), snd x)) (weights self)))
         \<and> fst ` set wu = (\<lambda>x. dict_get AGENT_NAME_MAPPING (fst x) (fst x)) ` set (weights self))
   \<and> (distinct (map (\<lambda>x. dict_get AGENT_NAME_MAPPING (fst x) (fst x)) (weights self)) \<longrightarrow>
        weights_used (weighted_decision self responses (model_dump s))
          = Some (map (\<lambda>x. (dict_get AGENT_NAME_MAPPING (fst x) (fst x), snd x)) (weights self)))
   \<and> map_option (map (\<lambda>p. (fst p, weight (snd p)))) (weight_breakdown (weighted_decision self responses (model_dump s)))
        = weights_used (weighted_decision self responses' syn')
   \<and> weights_used (weighted_decision (init v st opr ra sy b None) responses (model_dump s))
        = Some [(''Elon'', 0.35), (''Sam'', 0.30), (''Sheryl'', 0.20), (''Ray'', 0.15)]"
proof -
  have fields:
    "recommended_options (weighted_decision self responses (model_dump s)) = Seq (final_options s)"
    "recommended_options (majority_voting self responses (model_dump s)) = Seq (final_options s)"
    "synthesis_summary (weighted_decision self responses (model_dump s)) = Text (summary s)"
    "synthesis_summary (majority_voting self responses (model_dump s)) = Text (summary s)"
    "key_agreements (weighted_decision self responses (model_dump s)) = Seq (agreements s)"
    "key_agreements (majority_voting self responses (model_dump s)) = Seq (agreements s)"
    "key_conflicts (weighted_decision self responses (model_dump s)) = Seq (conflicts s)"
    "key_conflicts (majority_voting self responses (model_dump s)) = Seq (conflicts s)"
    "identified_blind_spots (weighted_decision self responses (model_dump s)) = Seq (blind_spots s)"
    "identified_blind_spots (majority_voting self responses (model_dump s)) = Seq (blind_spots s)"
    "weights_used (majority_voting self responses (model_dump s)) = None"
    "weight_breakdown (majority_voting self responses (model_dump s)) = None"
    by (simp_all add: weighted_decision_def majority_voting_def dict_get_model_dump Let_def)
  have entries: "\<forall>wb n b. weight_breakdown (weighted_decision self responses (model_dump s)) = Some wb \<and> (n, b) \<in> set wb
         \<longrightarrow> (\<exists>role. (role, weight b) \<in> set (weights self) \<and> n = dict_get AGENT_NAME_MAPPING role role)"
    using weight_breakdown_entries by blast
  have used: "distinct (map (\<lambda>x. dict_get AGENT_NAME_MAPPING (fst x) (fst x)) (weights self)) \<longrightarrow>
        weights_used (weighted_decision self responses (model_dump s))
          = Some (map (\<lambda>x. (dict_get AGENT_NAME_MAPPING (fst x) (fst x), snd x)) (weights self))"
    using weights_used_distinct by blast
  show ?thesis
    apply (intro conjI)
    apply (rule fields)+
    apply (rule entries)
    apply (rule weights_used_lookup)
    apply (rule used)
    apply (rule breakdown_weights_are_weights_used)
    apply (rule default_weights_used)
    done
qed

theorem decision_copies_synthesis_witness:
  "weight_breakdown (weighted_decision council [(''Visionary'', ''go'')] (model_dump sample_synthesis))
     = Some [(''Elon'', \<lparr> weight = 0.35, response_preview = ''go'' \<rparr>),
             (''Sam'', \<lparr> weight = 0.30, response_preview = [] \<rparr>),
             (''Sheryl'', \<lparr> weight = 0.20, response_preview = [] \<rparr>),
             (''Ray'', \<lparr> weight = 0.15, response_preview = [] \<rparr>)]
   \<and> (\<exists>role. (role, 0.35) \<in> set (weights council) \<and> ''Elon'' = dict_get AGENT_NAME_MAPPING role role)
   \<and> recommended_options (weighted_decision council [(''Visionary'', ''go'')] (model_dump sample_synthesis)) = Seq [''now'', ''later'']
   \<and> recommended_options (majority_voting council [(''Visionary'', ''go'')] (model_dump sample_synthesis)) = Seq [''now'', ''later'']
   \<and> distinct (map (\<lambda>x. dict_get AGENT_NAME_MAPPING (fst x) (fst x)) (weights council))
   \<and> weights_used (weighted_decision council [(''Visionary'', ''go'')] (model_dump sample_synthesis))
        = Some [(''Elon'', 0.35), (''Sam'', 0.30), (''Sheryl'', 0.20), (''Ray'', 0.15)]"
proof -
  let ?wb = "[(''Elon'', \<lparr> weight = 0.35, response_preview = ''go'' \<rparr>),
             (''Sam'', \<lparr> weight = 0.30, response_preview = [] \<rparr>),
             (''Sheryl'', \<lparr> weight = 0.20, response_preview = [] \<rparr>),
             (''Ray'', \<lparr> weight = 0.15::real, response_preview = [] \<rparr>)]"
  have wb: "weight_breakdown (weighted_decision council [(''Visionary'', ''go'')] (model_dump sample_synthesis)) = Some ?wb"
    by (simp add: council_def default_breakdown response_for_def dict_get_def preview_def)
  have mem: "(''Elon'', \<lparr> weight = 0.35, response_preview = ''go'' \<rparr>) \<in> set ?wb"
    by simp
  have opts: "final_options sample_synthesis = [''now'', ''later'']"
    by (simp add: sample_synthesis_def)
  have ws: "weights council = [(''Visionary'', 0.35), (''Strategist'', 0.30), (''Operator'', 0.20), (''Risk Analyst'', 0.15)]"
    by (simp add: council_def init_def AGENT_WEIGHTS_def)
  have dist: "distinct (map (\<lambda>x. dict_get AGENT_NAME_MAPPING (fst x) (fst x)) (weights council))"
    by (simp add: ws AGENT_NAME_MAPPING_def dict_get_def)
  note inst = decision_copies_synthesis[of council "[(''Visionary'', ''go'')]" sample_synthesis]
  from inst wb mem have "\<exists>role. (role, weight \<lparr> weight = 0.35, response_preview = ''go'' \<rparr>) \<in> set (weights council) \<and> ''Elon'' = dict_get AGENT_NAME_MAPPING role role"
    by blast
  then have elon: "\<exists>role. (role, 0.35) \<in> set (weights council) \<and> ''Elon'' = dict_get AGENT_NAME_MAPPING role role"
    by simp
  from inst dist have "weights_used (weighted_decision council [(''Visionary'', ''go'')] (model_dump sample_synthesis))
          = Some (map (\<lambda>x. (dict_get AGENT_NAME_MAPPING (fst x) (fst x), snd x)) (weights council))"
    by blast
  then have used: "weights_used (weighted_decision council [(''Visionary'', ''go'')] (model_dump sample_synthesis))
        = Some [(''Elon'', 0.35), (''Sam'', 0.30), (''Sheryl'', 0.20), (''Ray'', 0.15)]"
    by (simp add: ws AGENT_NAME_MAPPING_def dict_get_def)
  from inst have o1: "recommended_options (weighted_decision council [(''Visionary'', ''go'')] (model_dump sample_synthesis)) = Seq [''now'', ''later'']"
    and o2: "recommended_options (majority_voting council [(''Visionary'', ''go'')] (model_dump sample_synthesis)) = Seq [''now'', ''later'']"
    by (simp_all add: opts)
  from wb elon o1 o2 dist used show ?thesis by simp
qed

text \<open>
  C9. The preview of a response of at most 200 characters is the response itself; the
  preview of a longer one is its first 200 characters followed by an ellipsis of three
  dots. Every preview stored by the weighted strategy is this preview of the response
  looked up for the role (with the default weights: the four entries listed), and the
  majority strategy stores this preview of each response under its own key.
\<close>

theorem response_preview_truncated:
  "(length r \<le> 200 \<longrightarrow> preview r = r)
   \<and> (200 < length r \<longrightarrow> preview r = take 200 r @ ''...'' \<and> length (preview r) = 203)
   \<and> (\<forall>wb n b. weight_breakdown (weighted_decision self responses syn) = Some wb \<and> (n, b) \<in> set wb \<longrightarrow>
        (\<exists>role. (role, weight b) \<in> set (weights self) \<and> n = dict_get AGENT_NAME_MAPPING role role
            \<and> response_preview b = preview (response_for responses role n)))
   \<and> weight_breakdown (weighted_decision (init v s' opr ra sy b None) responses syn) =
     Some [(''Elon'', \<lparr> weight = 0.35, response_preview = preview (response_for responses ''Visionary'' ''Elon'') \<rparr>),
           (''Sam'', \<lparr> weight = 0.30, response_preview = preview (response_for responses ''Strategist'' ''Sam'') \<rparr>),
           (''Sheryl'', \<lparr> weight = 0.20, response_preview = preview (response_for responses ''Operator'' ''Sheryl'') \<rparr>),
           (''Ray'', \<lparr> weight = 0.15, response_preview = preview (response_for responses ''Risk Analyst'' ''Ray'') \<rparr>)]
   \<and> (distinct (map fst responses) \<longrightarrow>
        decision_agent_responses (majority_voting self responses syn) = Some (map (\<lambda>(a, r). (a, preview r)) responses))"
proof -
  have short: "length r \<le> 200 \<longrightarrow> preview r = r"
    by (simp add: preview_def)
  have long: "200 < length r \<longrightarrow> preview r = take 200 r @ ''...'' \<and> length (preview r) = 203"
    by (simp add: preview_def)
  have entries: "\<forall>wb n b. weight_breakdown (weighted_decision self responses syn) = Some wb \<and> (n, b) \<in> set wb \<longrightarrow>
        (\<exists>role. (role, weight b) \<in> set (weights self) \<and> n = dict_get AGENT_NAME_MAPPING role role
            \<and> response_preview b = preview (response_for responses role n))"
    using weight_breakdown_entries by blast
  from short long entries default_breakdown majority_previews show ?thesis
    by blast
qed


theorem response_preview_truncated_witness:
  "length ''go'' \<le> 200 \<and> preview ''go'' = ''go''
   \<and> 200 < length (replicate 201 (CHR ''x''))
   \<and> preview (replicate 201 (CHR ''x'')) = replicate 200 (CHR ''x'') @ ''...''
   \<and> length (preview (replicate 201 (CHR ''x''))) = 203
   \<and> distinct (map fst [(''Elon'', replicate 201 (CHR ''x'')), (''Visionary'', ''go'')])
   \<and> decision_agent_responses
        (majority_voting council [(''Elon'', replicate 201 (CHR ''x'')), (''Visionary'', ''go'')] [])
      = Some [(''Elon'', replicate 200 (CHR ''x'') @ ''...''), (''Visionary'', ''go'')]"
proof -
  let ?long = "replicate 201 (CHR ''x'')"
  let ?rs = "[(''Elon'', ?long), (''Visionary'', ''go'')]"
  note short = response_preview_truncated[where r = "''go''" and self = council and responses = ?rs and syn = "[]"]
  note long = response_preview_truncated[where r = ?long and self = council and responses = ?rs and syn = "[]"]
  have d: "distinct (map fst ?rs)" by simp
  have l: "200 < length ?long" by simp
  from long l have p: "preview ?long = replicate 200 (CHR ''x'') @ ''...''" by simp
  from short have q: "preview ''go'' = ''go''" by simp
  from long d have "decision_agent_responses (majority_voting council ?rs []) =
      Some (map (\<lambda>(a, r). (a, preview r)) ?rs)" by blast
  with p q long l show ?thesis by simp
qed

section \<open>Properties of the parallel-response step\<close>

lemma record_response_map_of:
  "map_of (record_response futs fut acc) k =
     (if writes futs fut k then Some (reply_text (outcome fut)) else map_of acc k)"
  by (auto simp: record_response_def writes_def reply_text_def update_conv' Let_def
           split: option.splits reply.splits)

lemma record_response_distinct:
  "distinct (map fst acc) \<Longrightarrow> distinct (map fst (record_response futs fut acc))"
  by (simp add: record_response_def Let_def distinct_update split: option.split reply.split)

lemma fold_record_distinct:
  "distinct (map fst acc) \<Longrightarrow> distinct (map fst (fold (record_response futs) fs acc))"
proof (induction fs arbitrary: acc)
  case Nil
  then show ?case by simp
next
  case (Cons fut fs)
  from Cons.prems have "distinct (map fst (record_response futs fut acc))"
    by (rule record_response_distinct)
  from Cons.IH[OF this] show ?case by simp
qed

lemma fold_record_untouched:
  "\<forall>fut \<in> set fs. \<not> writes futs fut k \<Longrightarrow>
     map_of (fold (record_response futs) fs acc) k = map_of acc k"
proof (induction fs arbitrary: acc)
  case Nil
  then show ?case by simp
next
  case (Cons fut fs)
  from Cons.prems have nw: "\<not> writes futs fut k" and rest: "\<forall>g \<in> set fs. \<not> writes futs g k"
    by simp_all
  have "map_of (fold (record_response futs) fs (record_response futs fut acc)) k
          = map_of (record_response futs fut acc) k"
    by (rule Cons.IH[OF rest])
  also have "\<dots> = map_of acc k" using nw by (simp add: record_response_map_of)
  finally show ?case by simp
qed

lemma fold_record_written:
  assumes "f0 \<in> set fs" and "writes futs f0 k"
      and "\<forall>fut \<in> set fs. writes futs fut k \<longrightarrow> fut = f0"
  shows "map_of (fold (record_response futs) fs acc) k = Some (reply_text (outcome f0))"
  using assms(1,3)
proof (induction fs arbitrary: acc)
  case Nil
  then show ?case by simp
next
  case (Cons fut fs)
  from Cons.prems(2) have rest: "\<forall>g \<in> set fs. writes futs g k \<longrightarrow> g = f0"
    by simp
  show ?case
  proof (cases "f0 \<in> set fs")
    case True
    have "map_of (fold (record_response futs) fs (record_response futs fut acc)) k
            = Some (reply_text (outcome f0))"
      by (rule Cons.IH[OF True rest])
    then show ?thesis by simp
  next
    case False
    with Cons.prems(1) have eq: "fut = f0" by simp
    from False rest have "\<forall>g \<in> set fs. \<not> writes futs g k" by blast
    then have "map_of (fold (record_response futs) fs (record_response futs fut acc)) k =
        map_of (record_response futs fut acc) k"
      by (rule fold_record_untouched)
    also have "\<dots> = Some (reply_text (outcome f0))"
      using eq assms(2) by (simp add: record_response_map_of)
    finally show ?thesis by simp
  qed
qed

lemma record_response_keys:
  "fst ` set (record_response futs fut acc) = fst ` set acc \<union> {k. writes futs fut k}"
proof -
  have "dom (map_of (record_response futs fut acc)) = dom (map_of acc) \<union> {k. writes futs fut k}"
    unfolding dom_def by (auto simp: record_response_map_of)
  then show ?thesis by (simp add: dom_map_of_conv_image_fst)
qed

lemma fold_record_keys:
  "fst ` set (fold (record_response futs) fs acc)
     = fst ` set acc \<union> {k. \<exists>fut \<in> set fs. writes futs fut k}"
proof (induction fs arbitrary: acc)
  case Nil
  then show ?case by simp
next
  case (Cons fut fs)
  have "fst ` set (fold (record_response futs) (fut # fs) acc)
      = (fst ` set acc \<union> {k. writes futs fut k}) \<union> {k. \<exists>g \<in> set fs. writes futs g k}"
    by (simp add: Cons.IH record_response_keys)
  also have "\<dots> = fst ` set acc \<union> {k. \<exists>g \<in> set (fut # fs). writes futs g k}"
    by auto
  finally show ?case .
qed

lemma find_role_futures:
  "find_role (analyze_futures self latency problem) (snd (analyze_futures self latency problem ! 0)) = Some ''Visionary''"
  "find_role (analyze_futures self latency problem) (snd (analyze_futures self latency problem ! Suc 0)) = Some ''Strategist''"
  "find_role (analyze_futures self latency problem) (snd (analyze_futures self latency problem ! 2)) = Some ''Operator''"
  "find_role (analyze_futures self latency problem) (snd (analyze_futures self latency problem ! 3)) = Some ''Risk Analyst''"
  by (simp_all add: find_role_def analyze_futures_def)

lemma writes_futures:
  "writes (analyze_futures self latency problem) (snd (analyze_futures self latency problem ! 0)) k
     \<longleftrightarrow> k = ''Visionary'' \<or> k = ''Elon''"
  "writes (analyze_futures self latency problem) (snd (analyze_futures self latency problem ! Suc 0)) k
     \<longleftrightarrow> k = ''Strategist'' \<or> k = ''Sam''"
  "writes (analyze_futures self latency problem) (snd (analyze_futures self latency problem ! 2)) k
     \<longleftrightarrow> k = ''Operator'' \<or> k = ''Sheryl''"
  "writes (analyze_futures self latency problem) (snd (analyze_futures self latency problem ! 3)) k
     \<longleftrightarrow> k = ''Risk Analyst'' \<or> k = ''Ray''"
  by (simp_all add: writes_def find_role_futures AGENT_NAME_MAPPING_def dict_get_def)

lemma futures_set:
  "set (map snd (analyze_futures self latency problem)) =
     {snd (analyze_futures self latency problem ! 0), snd (analyze_futures self latency problem ! Suc 0),
      snd (analyze_futures self latency problem ! 2), snd (analyze_futures self latency problem ! 3)}"
  by (simp add: analyze_futures_def)

lemma futures_outcome:
  "outcome (snd (analyze_futures self latency problem ! 0)) = analyze (visionary self) problem"
  "outcome (snd (analyze_futures self latency problem ! Suc 0)) = analyze (strategist self) problem"
  "outcome (snd (analyze_futures self latency problem ! 2)) = analyze (operator self) problem"
  "outcome (snd (analyze_futures self latency problem ! 3)) = analyze (risk_analyst self) problem"
  by (simp_all add: analyze_futures_def)



lemma step_2_responses:
  "agent_responses (step_2_parallel_responses self latency as_completed state) =
     fold (record_response (analyze_futures self latency (problem_statement state)))
          (as_completed (map snd (analyze_futures self latency (problem_statement state)))) []"
  by (simp add: step_2_parallel_responses_def Let_def)

lemma written_key_set:
  "{k. \<exists>fut \<in> set (map snd (analyze_futures self latency problem)).
          writes (analyze_futures self latency problem) fut k}
     = {''Visionary'', ''Strategist'', ''Operator'', ''Risk Analyst'', ''Elon'', ''Sam'', ''Sheryl'', ''Ray''}"
  unfolding futures_set by (auto simp: writes_futures)

lemma stored_value:
  assumes sched: "set fs = set (map snd (analyze_futures self latency problem))"
  shows
   "map_of (fold (record_response (analyze_futures self latency problem)) fs []) ''Visionary''
      = Some (reply_text (analyze (visionary self) problem))"
   "map_of (fold (record_response (analyze_futures self latency problem)) fs []) ''Elon''
      = Some (reply_text (analyze (visionary self) problem))"
   "map_of (fold (record_response (analyze_futures self latency problem)) fs []) ''Strategist''
      = Some (reply_text (analyze (strategist self) problem))"
   "map_of (fold (record_response (analyze_futures self latency problem)) fs []) ''Sam''
      = Some (reply_text (analyze (strategist self) problem))"
   "map_of (fold (record_response (analyze_futures self latency problem)) fs []) ''Operator''
      = Some (reply_text (analyze (operator self) problem))"
   "map_of (fold (record_response (analyze_futures self latency problem)) fs []) ''Sheryl''
      = Some (reply_text (analyze (operator self) problem))"
   "map_of (fold (record_response (analyze_futures self latency problem)) fs []) ''Risk Analyst''
      = Some (reply_text (analyze (risk_analyst self) problem))"
   "map_of (fold (record_response (analyze_futures self latency problem)) fs []) ''Ray''
      = Some (reply_text (analyze (risk_analyst self) problem))"
proof -
  let ?futs = "analyze_futures self latency problem"
  have s: "set fs = {snd (?futs ! 0), snd (?futs ! Suc 0), snd (?futs ! 2), snd (?futs ! 3)}"
    using sched unfolding futures_set .
  have v: "map_of (fold (record_response ?futs) fs []) ''Visionary'' = Some (reply_text (outcome (snd (?futs ! 0))))"
    by (rule fold_record_written) (simp_all add: s writes_futures)
  have e: "map_of (fold (record_response ?futs) fs []) ''Elon'' = Some (reply_text (outcome (snd (?futs ! 0))))"
    by (rule fold_record_written) (simp_all add: s writes_futures)
  have st: "map_of (fold (record_response ?futs) fs []) ''Strategist'' = Some (reply_text (outcome (snd (?futs ! Suc 0))))"
    by (rule fold_record_written) (simp_all add: s writes_futures)
  have sa: "map_of (fold (record_response ?futs) fs []) ''Sam'' = Some (reply_text (outcome (snd (?futs ! Suc 0))))"
    by (rule fold_record_written) (simp_all add: s writes_futures)
  have op: "map_of (fold (record_response ?futs) fs []) ''Operator'' = Some (reply_text (outcome (snd (?futs ! 2))))"
    by (rule fold_record_written) (simp_all add: s writes_futures)
  have sh: "map_of (fold (record_response ?futs) fs []) ''Sheryl'' = Some (reply_text (outcome (snd (?futs ! 2))))"
    by (rule fold_record_written) (simp_all add: s writes_futures)
  have ri: "map_of (fold (record_response ?futs) fs []) ''Risk Analyst'' = Some (reply_text (outcome (snd (?futs ! 3))))"
    by (rule fold_record_written) (simp_all add: s writes_futures)
  have ra: "map_of (fold (record_response ?futs) fs []) ''Ray'' = Some (reply_text (outcome (snd (?futs ! 3))))"
    by (rule fold_record_written) (simp_all add: s writes_futures)
  from v e st sa op sh ri ra show
   "map_of (fold (record_response ?futs) fs []) ''Visionary'' = Some (reply_text (analyze (visionary self) problem))"
   "map_of (fold (record_response ?futs) fs []) ''Elon'' = Some (reply_text (analyze (visionary self) problem))"
   "map_of (fold (record_response ?futs) fs []) ''Strategist'' = Some (reply_text (analyze (strategist self) problem))"
   "map_of (fold (record_response ?futs) fs []) ''Sam'' = Some (reply_text (analyze (strategist self) problem))"
   "map_of (fold (record_response ?futs) fs []) ''Operator'' = Some (reply_text (analyze (operator self) problem))"
   "map_of (fold (record_response ?futs) fs []) ''Sheryl'' = Some (reply_text (analyze (operator self) problem))"
   "map_of (fold (record_response ?futs) fs []) ''Risk Analyst'' = Some (reply_text (analyze (risk_analyst self) problem))"
   "map_of (fold (record_response ?futs) fs []) ''Ray'' = Some (reply_text (analyze (risk_analyst self) problem))"
    by (simp_all only: futures_outcome)
qed


text \<open>
  C1. Whatever the four \<^verbatim>\<open>analyze\<close> calls do (return or raise) and in whatever order the pool
  hands the four futures back, the responses stored by the parallel-response step have
  exactly the eight keys Visionary, Strategist, Operator, Risk Analyst, Elon, Sam, Sheryl
  and Ray, and each role's value equals its alias's value: the returned text, or
  the text \<^verbatim>\<open>Error: \<close> followed by the exception's message.
\<close>

theorem parallel_responses_complete:
  assumes sched: "set (as_completed (map snd (analyze_futures self latency (problem_statement state))))
                    = set (map snd (analyze_futures self latency (problem_statement state)))"
      and rs: "rs = agent_responses (step_2_parallel_responses self latency as_completed state)"
  shows "fst ` set rs = {''Visionary'', ''Strategist'', ''Operator'', ''Risk Analyst'',
                         ''Elon'', ''Sam'', ''Sheryl'', ''Ray''}
       \<and> distinct (map fst rs) \<and> length rs = 8
       \<and> map_of rs ''Visionary'' = Some (reply_text (analyze (visionary self) (problem_statement state)))
       \<and> map_of rs ''Elon'' = map_of rs ''Visionary''
       \<and> map_of rs ''Strategist'' = Some (reply_text (analyze (strategist self) (problem_statement state)))
       \<and> map_of rs ''Sam'' = map_of rs ''Strategist''
       \<and> map_of rs ''Operator'' = Some (reply_text (analyze (operator self) (problem_statement state)))
       \<and> map_of rs ''Sheryl'' = map_of rs ''Operator''
       \<and> map_of rs ''Risk Analyst'' = Some (reply_text (analyze (risk_analyst self) (problem_statement state)))
       \<and> map_of rs ''Ray'' = map_of rs ''Risk Analyst''"
proof -
  let ?futs = "analyze_futures self latency (problem_statement state)"
  let ?K = "{''Visionary'', ''Strategist'', ''Operator'', ''Risk Analyst'', ''Elon'', ''Sam'', ''Sheryl'', ''Ray''}"
  have eq: "rs = fold (record_response ?futs) (as_completed (map snd ?futs)) []"
    unfolding rs by (rule step_2_responses)
  have keys: "fst ` set rs = ?K"
    unfolding eq fold_record_keys sched written_key_set by simp
  have dist: "distinct (map fst rs)"
    unfolding eq by (rule fold_record_distinct) simp
  have "card (fst ` set rs) = 8"
    unfolding keys by simp
  moreover have "card (fst ` set rs) = length rs"
    using distinct_card[OF dist] by simp
  ultimately have len: "length rs = 8" by simp
  note vals = stored_value[OF sched, folded eq]
  from keys dist len vals show ?thesis by simp
qed

theorem parallel_responses_complete_witness:
  "set (rev (map snd (analyze_futures council (\<lambda>_. 5) (problem_statement (step_1_broadcast ''launch?'')))))
     = set (map snd (analyze_futures council (\<lambda>_. 5) (problem_statement (step_1_broadcast ''launch?''))))
   \<and> length (agent_responses (step_2_parallel_responses council (\<lambda>_. 5) rev (step_1_broadcast ''launch?''))) = 8
   \<and> map_of (agent_responses (step_2_parallel_responses council (\<lambda>_. 5) rev (step_1_broadcast ''launch?''))) ''Operator''
        = Some ''Error: boom''
   \<and> map_of (agent_responses (step_2_parallel_responses council (\<lambda>_. 5) rev (step_1_broadcast ''launch?''))) ''Sheryl''
        = Some ''Error: boom''
   \<and> map_of (agent_responses (step_2_parallel_responses council (\<lambda>_. 5) rev (step_1_broadcast ''launch?''))) ''Elon''
        = Some ''go''"
proof -
  let ?st = "step_1_broadcast ''launch?''"
  have h: "set (rev (map snd (analyze_futures council (\<lambda>_. 5) (problem_statement ?st))))
     = set (map snd (analyze_futures council (\<lambda>_. 5) (problem_statement ?st)))"
    by simp
  have o: "analyze (operator council) (problem_statement ?st) = Raised ''boom''"
    by (simp add: council_def init_def failing_def)
  have v: "analyze (visionary council) (problem_statement ?st) = Returned ''go''"
    by (simp add: council_def init_def say_def)
  from parallel_responses_complete[where as_completed = rev and self = council
         and latency = "\<lambda>_. 5" and state = ?st, OF h refl] h
  show ?thesis
    by (simp add: o v reply_text_def)
qed

section \<open>Properties of one round of group chat\<close>

lemma collect_received:
  "collect fs now (msgs, h) =
     (msgs @ concat (map (\<lambda>(a, r). contribution a r) (received fs now)),
      h @ map line_of (concat (map (\<lambda>(a, r). contribution a r) (received fs now))))"
proof (induction fs arbitrary: now msgs h)
  case Nil
  then show ?case by simp
next
  case (Cons p fs)
  obtain a fut where p: "p = (a, fut)" by (cases p)
  obtain r now' where fr: "future_result fut now 60 = (r, now')" by (cases "future_result fut now 60")
  show ?case
  proof (cases r)
    case (Returned response)
    then show ?thesis
      by (simp add: p fr Cons.IH contribution_def line_of_def)
  next
    case (Raised e)
    then show ?thesis
      by (simp add: p fr Cons.IH contribution_def)
  qed
qed

lemma submitted_futures:
  "map (\<lambda>(c, fut). (call_agent c, fut))
       (map (\<lambda>(i, agent_name, a).
               (round_call h f agent_name,
                \<lparr> fid = i, done_at = latency agent_name, outcome = invoke a (round_call h f agent_name) \<rparr>))
            (enumerate 0 (agents_of self)))
     = round_futures self latency h f"
  by (simp add: round_futures_def agents_of_def enumerate_eq_zip round_call_def Let_def)

lemma submitted_calls:
  "map fst
       (map (\<lambda>(i, agent_name, a).
               (round_call h f agent_name,
                \<lparr> fid = i, done_at = latency agent_name, outcome = invoke a (round_call h f agent_name) \<rparr>))
            (enumerate 0 (agents_of self)))
     = map (round_call h f) agent_names"
  by (simp add: agents_of_def enumerate_eq_zip agent_names_def)

lemma run_one_round_alt:
  "run_one_round self latency h f =
     \<lparr> round_messages = fst (collect (round_futures self latency h f) 0 ([], h)),
       round_history = snd (collect (round_futures self latency h f) 0 ([], h)),
       round_calls = map (round_call h f) agent_names \<rparr>"
  unfolding run_one_round_def Let_def submitted_futures submitted_calls
  by (simp only: case_prod_beta)

lemma run_one_round_received:
  "round_messages (run_one_round self latency h f)
     = concat (map (\<lambda>(a, r). contribution a r) (received (round_futures self latency h f) 0))"
  "round_history (run_one_round self latency h f)
     = h @ map line_of (round_messages (run_one_round self latency h f))"
  "round_calls (run_one_round self latency h f) = map (round_call h f) agent_names"
  by (simp_all add: run_one_round_alt collect_received)



lemma contribution_sound:
  assumes "m \<in> set (contribution a r)"
  shows "agent_of m = a \<and> r = Returned (message m) \<and> \<not> chose_skip (message m)"
  using assms by (auto simp: contribution_def split: reply.splits if_splits)

lemma future_result_cases:
  "fst (future_result fut now t) = outcome fut \<or> fst (future_result fut now t) = Raised []"
  by (simp add: future_result_def)

lemma received_sound:
  assumes "m \<in> set (concat (map (\<lambda>(a, r). contribution a r) (received fs now)))"
  shows "\<exists>fut. (agent_of m, fut) \<in> set fs \<and> outcome fut = Returned (message m)
           \<and> \<not> chose_skip (message m)"
  using assms
proof (induction fs arbitrary: now)
  case Nil
  then show ?case by simp
next
  case (Cons p fs)
  obtain a fut where p: "p = (a, fut)" by (cases p)
  from Cons.prems consider
      (head) "m \<in> set (contribution a (fst (future_result fut now 60)))"
    | (tail) "m \<in> set (concat (map (\<lambda>(a, r). contribution a r)
                 (received fs (snd (future_result fut now 60)))))"
    by (auto simp: p)
  then show ?case
  proof cases
    case head
    from contribution_sound[OF head]
    have a: "agent_of m = a" and r: "fst (future_result fut now 60) = Returned (message m)"
      and ns: "\<not> chose_skip (message m)" by simp_all
    from r future_result_cases[of fut now 60] have "outcome fut = Returned (message m)"
      by auto
    with a ns show ?thesis by (auto simp: p)
  next
    case tail
    from Cons.IH[OF tail] show ?thesis by auto
  qed
qed

lemma round_futures_outcome:
  assumes "(a, fut) \<in> set (round_futures self latency h f)"
  shows "\<exists>ag. (a, ag) \<in> set (agents_of self) \<and> outcome fut = invoke ag (round_call h f a)
           \<and> done_at fut = latency a"
proof -
  from assms obtain i ag where mem: "(i, a, ag) \<in> set (enumerate 0 (agents_of self))"
    and fut: "fut = \<lparr> fid = i, done_at = latency a, outcome = invoke ag (round_call h f a) \<rparr>"
    by (auto simp: round_futures_def)
  from mem have "i < length (agents_of self)" and "agents_of self ! i = (a, ag)"
    by (simp_all add: in_set_enumerate_eq)
  then have "(a, ag) \<in> set (agents_of self)"
    using nth_mem by fastforce
  with fut show ?thesis by auto
qed

lemma agents_of_unique:
  assumes "(a, ag) \<in> set (agents_of self)" and "(a, ag') \<in> set (agents_of self)"
  shows "ag = ag'"
  using assms by (auto simp: agents_of_def)


lemma skipping_agent_absent:
  assumes ag: "(a, ag) \<in> set (agents_of self)"
      and r: "invoke ag (round_call h f a) = Returned s" and sk: "chose_skip s"
  shows "a \<notin> agent_of ` set (round_messages (run_one_round self latency h f))"
proof
  assume "a \<in> agent_of ` set (round_messages (run_one_round self latency h f))"
  then obtain m where m: "m \<in> set (round_messages (run_one_round self latency h f))"
    and a: "agent_of m = a" by auto
  from m have "m \<in> set (concat (map (\<lambda>(a, r). contribution a r)
                 (received (round_futures self latency h f) 0)))"
    by (simp only: run_one_round_received(1))
  from received_sound[OF this] obtain fut where
    fut: "(agent_of m, fut) \<in> set (round_futures self latency h f)"
    and out: "outcome fut = Returned (message m)" and ns: "\<not> chose_skip (message m)"
    by blast
  from round_futures_outcome[OF fut] obtain ag' where
    ag': "(agent_of m, ag') \<in> set (agents_of self)"
    and out': "outcome fut = invoke ag' (round_call h f (agent_of m))" by blast
  from ag ag' a have "ag' = ag" using agents_of_unique by blast
  with out out' r a have "message m = s" by simp
  with ns sk show False by simp
qed

lemma chose_skip_prefix: "chose_skip s \<longleftrightarrow> startswith (upper (strip s)) (points_of ''SKIP'')"
  by (auto simp: chose_skip_def startswith_def)

text \<open>
  C4. In every round run by \<^verbatim>\<open>run_one_round\<close>, a non-first round included, no returned
  message holds a reply that chose to skip, the lines appended to the history are exactly
  the lines of the returned messages, and a persona whose reply chose to skip contributes
  no message at all. A reply chooses to skip when its stripped, upper-cased text equals or
  begins with \<^verbatim>\<open>SKIP\<close>.
\<close>

theorem skip_not_recorded:
  "(\<forall>m \<in> set (round_messages (run_one_round self latency h f)). \<not> chose_skip (message m))
   \<and> round_history (run_one_round self latency h f)
       = h @ map line_of (round_messages (run_one_round self latency h f))
   \<and> (\<forall>a ag s. (a, ag) \<in> set (agents_of self) \<and> invoke ag (round_call h f a) = Returned s \<and> chose_skip s
         \<longrightarrow> a \<notin> agent_of ` set (round_messages (run_one_round self latency h f)))
   \<and> (chose_skip t \<longleftrightarrow> startswith (upper (strip t)) (points_of ''SKIP''))"
proof -
  have "\<not> chose_skip (message m)"
    if "m \<in> set (round_messages (run_one_round self latency h f))" for m
  proof -
    from that have "m \<in> set (concat (map (\<lambda>(a, r). contribution a r)
                 (received (round_futures self latency h f) 0)))"
      by (simp only: run_one_round_received(1))
    from received_sound[OF this] show ?thesis by blast
  qed
  then have 1: "\<forall>m \<in> set (round_messages (run_one_round self latency h f)). \<not> chose_skip (message m)"
    by blast
  have 3: "\<forall>a ag s. (a, ag) \<in> set (agents_of self) \<and> invoke ag (round_call h f a) = Returned s \<and> chose_skip s
         \<longrightarrow> a \<notin> agent_of ` set (round_messages (run_one_round self latency h f))"
    using skipping_agent_absent by blast
  from 1 3 run_one_round_received(2) chose_skip_prefix show ?thesis by blast
qed

theorem skip_not_recorded_witness:
  "chose_skip '' skip it''
   \<and> chose_skip (CHR 0xA0 # ''SKIP'') \<and> chose_skip (CHR 0x85 # ''skip this one'') \<and> \<not> chose_skip ''I skip''
   \<and> round_messages (run_one_round (init (say (CHR 0xA0 # ''SKIP'')) (say ''wait'') (failing ''boom'')
            (say '' skip it'') plain_synthesis True None) (\<lambda>_. 5) [''You: hi''] False)
       = [\<lparr> agent_of = ''Sam'', message = ''wait'' \<rparr>]
   \<and> invoke (risk_analyst council) (round_call [''You: hi''] False ''Ray'') = Returned '' skip it''
   \<and> ''Ray'' \<notin> agent_of ` set (round_messages (run_one_round council (\<lambda>_. 5) [''You: hi''] False))
   \<and> round_messages (run_one_round council (\<lambda>_. 5) [''You: hi''] False)
       = [\<lparr> agent_of = ''Elon'', message = ''go'' \<rparr>, \<lparr> agent_of = ''Sam'', message = ''wait'' \<rparr>]
   \<and> round_history (run_one_round council (\<lambda>_. 5) [''You: hi''] False)
       = [''You: hi'', ''Elon: go'', ''Sam: wait'']"
proof -
  have sk: "chose_skip '' skip it''" by code_simp
  have sk': "chose_skip (CHR 0xA0 # ''SKIP'') \<and> chose_skip (CHR 0x85 # ''skip this one'') \<and> \<not> chose_skip ''I skip''"
    by code_simp
  have nbsp: "round_messages (run_one_round (init (say (CHR 0xA0 # ''SKIP'')) (say ''wait'') (failing ''boom'')
            (say '' skip it'') plain_synthesis True None) (\<lambda>_. 5) [''You: hi''] False)
       = [\<lparr> agent_of = ''Sam'', message = ''wait'' \<rparr>]"
    by code_simp
  have r: "invoke (risk_analyst council) (round_call [''You: hi''] False ''Ray'') = Returned '' skip it''"
    by (simp add: council_def init_def say_def invoke_def)
  have mem: "(''Ray'', risk_analyst council) \<in> set (agents_of council)"
    by (simp add: agents_of_def)
  have msgs: "round_messages (run_one_round council (\<lambda>_. 5) [''You: hi''] False)
       = [\<lparr> agent_of = ''Elon'', message = ''go'' \<rparr>, \<lparr> agent_of = ''Sam'', message = ''wait'' \<rparr>]"
    by code_simp
  note inst = skip_not_recorded[where self = council and latency = "\<lambda>_. 5" and h = "[''You: hi'']"
      and f = False and t = "'' skip it''"]
  from inst sk r mem
  have absent: "''Ray'' \<notin> agent_of ` set (round_messages (run_one_round council (\<lambda>_. 5) [''You: hi''] False))"
    by blast
  from inst have "round_history (run_one_round council (\<lambda>_. 5) [''You: hi''] False)
       = [''You: hi''] @ map line_of (round_messages (run_one_round council (\<lambda>_. 5) [''You: hi''] False))"
    by blast
  then have hist: "round_history (run_one_round council (\<lambda>_. 5) [''You: hi''] False)
       = [''You: hi'', ''Elon: go'', ''Sam: wait'']"
    by (simp add: msgs line_of_def transcript_line_def)
  from sk sk' nbsp r absent msgs hist show ?thesis by blast
qed

section \<open>Properties of the group chat\<close>

lemma rounds_from_0: "rounds_from self latency fr 0 = (round_history fr, round_messages fr, [(True, fr)])"
  by (simp add: rounds_from_def)

lemma rounds_from_Suc:
  "rounds_from self latency fr (Suc k) = chat_round self latency (Suc k) (rounds_from self latency fr k)"
  by (simp add: rounds_from_def)

lemma rounds_from_trace:
  "case rounds_from self latency fr k of (h, g, t) \<Rightarrow>
     length t = Suc k \<and> map fst t = True # replicate k False
     \<and> h = round_history (snd (t ! k))
     \<and> t ! 0 = (True, fr)
     \<and> (\<forall>i<k. t ! Suc i = (False, run_one_round self (latency (Suc i)) (round_history (snd (t ! i))) False))
     \<and> g = concat (map (\<lambda>p. round_messages (snd p)) t)"
proof (induction k)
  case 0
  show ?case by (simp add: rounds_from_0)
next
  case (Suc k)
  obtain h g t where st: "rounds_from self latency fr k = (h, g, t)"
    by (cases "rounds_from self latency fr k")
  from Suc st have len: "length t = Suc k" and flags: "map fst t = True # replicate k False"
    and h: "h = round_history (snd (t ! k))" and first: "t ! 0 = (True, fr)"
    and steps: "\<forall>i<k. t ! Suc i = (False, run_one_round self (latency (Suc i)) (round_history (snd (t ! i))) False)"
    and g: "g = concat (map (\<lambda>p. round_messages (snd p)) t)"
    by simp_all
  let ?r = "run_one_round self (latency (Suc k)) h False"
  let ?t = "t @ [(False, ?r)]"
  have next_st: "rounds_from self latency fr (Suc k) = (round_history ?r, g @ round_messages ?r, ?t)"
    by (simp add: rounds_from_Suc st chat_round_def Let_def)
  have 1: "length ?t = Suc (Suc k)" using len by simp
  have 2: "map fst ?t = True # replicate (Suc k) False"
    using flags by (simp add: replicate_append_same)
  have 3: "round_history ?r = round_history (snd (?t ! Suc k))"
    using len by (simp add: nth_append)
  have 4: "?t ! 0 = (True, fr)" using first len by (simp add: nth_append)
  have 5: "\<forall>i<Suc k. ?t ! Suc i = (False, run_one_round self (latency (Suc i)) (round_history (snd (?t ! i))) False)"
  proof (intro allI impI)
    fix i assume i: "i < Suc k"
    show "?t ! Suc i = (False, run_one_round self (latency (Suc i)) (round_history (snd (?t ! i))) False)"
    proof (cases "i < k")
      case True
      with steps len show ?thesis by (simp add: nth_append)
    next
      case False
      with i have "i = k" by simp
      with len h show ?thesis by (simp add: nth_append)
    qed
  qed
  have 6: "g @ round_messages ?r = concat (map (\<lambda>p. round_messages (snd p)) ?t)"
    using g by simp
  from 1 2 3 4 5 6 show ?case unfolding next_st by simp
qed

lemma run_group_chat_alt:
  "1 \<le> n \<Longrightarrow> snd (run_group_chat self latency user_msg n)
     = snd (snd (rounds_from self latency (run_one_round self (latency 0) [''You: '' @ user_msg] True) (nat n - 1)))"
  "1 \<le> n \<Longrightarrow> group_chat (fst (run_group_chat self latency user_msg n))
     = Some (fst (snd (rounds_from self latency (run_one_round self (latency 0) [''You: '' @ user_msg] True) (nat n - 1))))"
  "1 \<le> n \<Longrightarrow> conversation_history (fst (run_group_chat self latency user_msg n))
     = Some (fst (rounds_from self latency (run_one_round self (latency 0) [''You: '' @ user_msg] True) (nat n - 1)))"
  by (simp_all add: run_group_chat_def rounds_from_def Let_def case_prod_beta)

text \<open>
  C10. A group chat asked for \<open>n \<ge> 1\<close> rounds calls \<^verbatim>\<open>run_one_round\<close> exactly \<open>n\<close> times:
  once as the first round, on the user's message, then \<open>n - 1\<close> times as a later round, each
  on the history that the round before it left. No round is left out, whatever the rounds
  before it returned, an empty list of messages included; the stored group chat is the
  messages of all the rounds, in order.
\<close>

theorem group_chat_runs_every_round:
  assumes "1 \<le> n"
  shows "length (snd (run_group_chat self latency user_msg n)) = nat n
   \<and> map fst (snd (run_group_chat self latency user_msg n)) = True # replicate (nat n - 1) False
   \<and> snd (run_group_chat self latency user_msg n) ! 0
        = (True, run_one_round self (latency 0) [''You: '' @ user_msg] True)
   \<and> (\<forall>i. Suc i < nat n \<longrightarrow>
         snd (run_group_chat self latency user_msg n) ! Suc i
           = (False, run_one_round self (latency (Suc i))
                       (round_history (snd (snd (run_group_chat self latency user_msg n) ! i))) False))
   \<and> group_chat (fst (run_group_chat self latency user_msg n))
        = Some (concat (map (\<lambda>p. round_messages (snd p)) (snd (run_group_chat self latency user_msg n))))"
proof -
  let ?fr = "run_one_round self (latency 0) [''You: '' @ user_msg] True"
  obtain h g t where st: "rounds_from self latency ?fr (nat n - 1) = (h, g, t)"
    by (cases "rounds_from self latency ?fr (nat n - 1)")
  from assms have n: "Suc (nat n - 1) = nat n" by simp
  from rounds_from_trace[where self = self and latency = latency and fr = ?fr and k = "nat n - 1"] st
  have len: "length t = Suc (nat n - 1)" and flags: "map fst t = True # replicate (nat n - 1) False"
    and first: "t ! 0 = (True, ?fr)"
    and steps: "\<forall>i<nat n - 1. t ! Suc i = (False, run_one_round self (latency (Suc i)) (round_history (snd (t ! i))) False)"
    and g: "g = concat (map (\<lambda>p. round_messages (snd p)) t)"
    by simp_all
  have tr: "snd (run_group_chat self latency user_msg n) = t"
    using run_group_chat_alt(1)[OF assms, where self = self and latency = latency and user_msg = user_msg] st by simp
  have gc: "group_chat (fst (run_group_chat self latency user_msg n)) = Some g"
    using run_group_chat_alt(2)[OF assms, where self = self and latency = latency and user_msg = user_msg] st by simp
  have s: "\<forall>i. Suc i < nat n \<longrightarrow> t ! Suc i = (False, run_one_round self (latency (Suc i)) (round_history (snd (t ! i))) False)"
    using steps by auto
  from len n flags first s g show ?thesis unfolding tr gc by simp
qed

theorem group_chat_runs_every_round_witness:
  "(1::int) \<le> 3
   \<and> map (\<lambda>p. round_messages (snd p)) (snd (run_group_chat quiet_council (\<lambda>_ _. 5) ''hi'' 3)) = [[], [], []]
   \<and> length (snd (run_group_chat quiet_council (\<lambda>_ _. 5) ''hi'' 3)) = 3
   \<and> map fst (snd (run_group_chat quiet_council (\<lambda>_ _. 5) ''hi'' 3)) = [True, False, False]
   \<and> group_chat (fst (run_group_chat quiet_council (\<lambda>_ _. 5) ''hi'' 3)) = Some []
   \<and> Suc 0 < nat 3
   \<and> snd (run_group_chat quiet_council (\<lambda>_ _. 5) ''hi'' 3) ! Suc 0
        = (False, run_one_round quiet_council (\<lambda>_. 5) [''You: hi''] False)"
proof -
  have empty: "map (\<lambda>p. round_messages (snd p)) (snd (run_group_chat quiet_council (\<lambda>_ _. 5) ''hi'' 3)) = [[], [], []]"
    by code_simp
  have n: "(1::int) \<le> 3" by simp
  note inst = group_chat_runs_every_round[OF n, where self = quiet_council and latency = "\<lambda>_ _. 5" and user_msg = "''hi''"]
  from inst have len: "length (snd (run_group_chat quiet_council (\<lambda>_ _. 5) ''hi'' 3)) = 3"
    by simp
  from inst have flags: "map fst (snd (run_group_chat quiet_council (\<lambda>_ _. 5) ''hi'' 3)) = [True, False, False]"
    by (simp add: eval_nat_numeral)
  from inst have "group_chat (fst (run_group_chat quiet_council (\<lambda>_ _. 5) ''hi'' 3))
        = Some (concat (map (\<lambda>p. round_messages (snd p)) (snd (run_group_chat quiet_council (\<lambda>_ _. 5) ''hi'' 3))))"
    by blast
  then have gc: "group_chat (fst (run_group_chat quiet_council (\<lambda>_ _. 5) ''hi'' 3)) = Some []"
    by (simp only: empty) simp
  have h1: "round_history (run_one_round quiet_council (\<lambda>_. 5) [''You: hi''] True) = [''You: hi'']"
    by code_simp
  from inst have first: "snd (run_group_chat quiet_council (\<lambda>_ _. 5) ''hi'' 3) ! 0
        = (True, run_one_round quiet_council (\<lambda>_. 5) [''You: '' @ ''hi''] True)"
    by blast
  have i: "Suc 0 < nat 3" by simp
  from inst have "\<forall>i. Suc i < nat 3 \<longrightarrow>
         snd (run_group_chat quiet_council (\<lambda>_ _. 5) ''hi'' 3) ! Suc i
           = (False, run_one_round quiet_council (\<lambda>_. 5)
                       (round_history (snd (snd (run_group_chat quiet_council (\<lambda>_ _. 5) ''hi'' 3) ! i))) False)"
    by blast
  with i have "snd (run_group_chat quiet_council (\<lambda>_ _. 5) ''hi'' 3) ! Suc 0
           = (False, run_one_round quiet_council (\<lambda>_. 5)
                       (round_history (snd (snd (run_group_chat quiet_council (\<lambda>_ _. 5) ''hi'' 3) ! 0))) False)"
    by blast
  then have second: "snd (run_group_chat quiet_council (\<lambda>_ _. 5) ''hi'' 3) ! Suc 0
        = (False, run_one_round quiet_council (\<lambda>_. 5) [''You: hi''] False)"
    by (simp only: first snd_conv append.simps h1)
  from n empty len flags gc i second show ?thesis by blast
qed

section \<open>Order and failures in a round of group chat\<close>































section \<open>What a persona is given in a round\<close>

lemma debate_turn_alt:
  "debate_turn (a, ag) (h, msgs, cs) =
     (let c = \<lparr> call_agent = a, call_message = conversation_prompt (join newline (last10 h)),
                call_context = join newline (last10 h) \<rparr>
      in (h @ [transcript_line a (reply_text (invoke ag c))],
          msgs @ [\<lparr> agent_of = a, message = reply_text (invoke ag c) \<rparr>], cs @ [c]))"
  by (simp add: debate_turn_def Let_def reply_text_def split: reply.split)

lemma concat_replicate_Suc:
  "concat (replicate (Suc n) xs) = concat (replicate n xs) @ xs"
  by (induction n) simp_all

lemma fold_rounds:
  "fold (\<lambda>round_num acc. fold f xs acc) [0..<n] s = fold f (concat (replicate n xs)) s"
proof (induction n)
  case 0
  show ?case by simp
next
  case (Suc n)
  then show ?case by (simp only: upt_Suc_append[OF le0] fold_append comp_apply concat_replicate_Suc fold_simps)
qed

lemma nth_concat_replicate:
  "xs \<noteq> [] \<Longrightarrow> i < n * length xs \<Longrightarrow> concat (replicate n xs) ! i = xs ! (i mod length xs)"
proof (induction n arbitrary: i)
  case 0
  then show ?case by simp
next
  case (Suc n)
  show ?case
  proof (cases "i < length xs")
    case True
    then show ?thesis by (simp add: nth_append)
  next
    case False
    with Suc.prems have "i - length xs < n * length xs" by simp
    from Suc.IH[OF Suc.prems(1) this] False show ?thesis
      by (simp add: nth_append le_mod_geq)
  qed
qed

lemma debate_turns:
  "\<exists>hs calls M.
      fold debate_turn as (h, msgs, cs) = (hs ! length as, M, cs @ calls)
      \<and> length calls = length as \<and> length hs = Suc (length as) \<and> hs ! 0 = h
      \<and> (\<forall>i < length as.
            calls ! i = \<lparr> call_agent = fst (as ! i),
                           call_message = conversation_prompt (join newline (last10 (hs ! i))),
                           call_context = join newline (last10 (hs ! i)) \<rparr>
            \<and> hs ! Suc i = hs ! i @ [transcript_line (fst (as ! i)) (reply_text (invoke (snd (as ! i)) (calls ! i)))])"
proof (induction as rule: rev_induct)
  case Nil
  show ?case by (intro exI[of _ "[h]"] exI[of _ "[]"] exI[of _ msgs]) simp
next
  case (snoc x as)
  obtain a ag where x: "x = (a, ag)" by (cases x)
  from snoc obtain hs calls M where
    st: "fold debate_turn as (h, msgs, cs) = (hs ! length as, M, cs @ calls)"
    and lc: "length calls = length as" and lh: "length hs = Suc (length as)" and h0: "hs ! 0 = h"
    and steps: "\<forall>i < length as.
            calls ! i = \<lparr> call_agent = fst (as ! i),
                           call_message = conversation_prompt (join newline (last10 (hs ! i))),
                           call_context = join newline (last10 (hs ! i)) \<rparr>
            \<and> hs ! Suc i = hs ! i @ [transcript_line (fst (as ! i)) (reply_text (invoke (snd (as ! i)) (calls ! i)))]"
    by blast
  let ?H = "hs ! length as"
  let ?c = "\<lparr> call_agent = a, call_message = conversation_prompt (join newline (last10 ?H)),
                call_context = join newline (last10 ?H) \<rparr>"
  let ?H' = "?H @ [transcript_line a (reply_text (invoke ag ?c))]"
  let ?M' = "M @ [\<lparr> agent_of = a, message = reply_text (invoke ag ?c) \<rparr>]"
  let ?hs = "hs @ [?H']"
  let ?calls = "calls @ [?c]"
  have 1: "fold debate_turn (as @ [x]) (h, msgs, cs) = (?hs ! length (as @ [x]), ?M', cs @ ?calls)"
    using lh by (simp add: st x debate_turn_alt Let_def nth_append)
  have 2: "length ?calls = length (as @ [x])" using lc by simp
  have 3: "length ?hs = Suc (length (as @ [x]))" using lh by simp
  have 4: "?hs ! 0 = h" using h0 lh by (simp add: nth_append)
  have 5: "\<forall>i < length (as @ [x]).
            ?calls ! i = \<lparr> call_agent = fst ((as @ [x]) ! i),
                           call_message = conversation_prompt (join newline (last10 (?hs ! i))),
                           call_context = join newline (last10 (?hs ! i)) \<rparr>
            \<and> ?hs ! Suc i = ?hs ! i @ [transcript_line (fst ((as @ [x]) ! i)) (reply_text (invoke (snd ((as @ [x]) ! i)) (?calls ! i)))]"
  proof (intro allI impI)
    fix i assume i: "i < length (as @ [x])"
    show "?calls ! i = \<lparr> call_agent = fst ((as @ [x]) ! i),
                           call_message = conversation_prompt (join newline (last10 (?hs ! i))),
                           call_context = join newline (last10 (?hs ! i)) \<rparr>
            \<and> ?hs ! Suc i = ?hs ! i @ [transcript_line (fst ((as @ [x]) ! i)) (reply_text (invoke (snd ((as @ [x]) ! i)) (?calls ! i)))]"
    proof (cases "i < length as")
      case True
      with steps lc lh show ?thesis by (simp add: nth_append)
    next
      case False
      with i have "i = length as" by simp
      with lc lh show ?thesis by (simp add: nth_append x)
    qed
  qed
  from 1 2 3 4 5 show ?case by blast
qed

lemma length_concat_replicate: "length (concat (replicate n xs)) = n * length xs"
  by (induction n) simp_all

lemma agents_of_names: "map fst (agents_of self) = agent_names"
  by (simp add: agents_of_def agent_names_def)

lemma debate_calls_alt:
  "snd (step_2_5_debate self state rounds)
     = snd (snd (fold debate_turn (concat (replicate rounds (agents_of self))) (initial_history state, [], [])))"
  by (simp add: step_2_5_debate_def Let_def case_prod_beta fold_rounds)

lemma debate_calls_chain:
  "\<exists>hs. length hs = Suc (4 * rounds) \<and> hs ! 0 = initial_history state
       \<and> length (snd (step_2_5_debate self state rounds)) = 4 * rounds
       \<and> (\<forall>i < 4 * rounds.
            call_agent (snd (step_2_5_debate self state rounds) ! i) = agent_names ! (i mod 4)
            \<and> call_context (snd (step_2_5_debate self state rounds) ! i) = join newline (last10 (hs ! i))
            \<and> call_message (snd (step_2_5_debate self state rounds) ! i)
                 = conversation_prompt (join newline (last10 (hs ! i)))
            \<and> (\<exists>ag. (call_agent (snd (step_2_5_debate self state rounds) ! i), ag) \<in> set (agents_of self)
                  \<and> hs ! Suc i = hs ! i @ [transcript_line (call_agent (snd (step_2_5_debate self state rounds) ! i))
                                               (reply_text (invoke ag (snd (step_2_5_debate self state rounds) ! i)))]))"
proof -
  let ?as = "concat (replicate rounds (agents_of self))"
  have len_as: "length ?as = 4 * rounds"
    by (simp add: length_concat_replicate agents_of_def)
  from debate_turns[of ?as "initial_history state" "[]" "[]"] obtain hs calls M where
    st: "fold debate_turn ?as (initial_history state, [], []) = (hs ! length ?as, M, [] @ calls)"
    and lc: "length calls = length ?as" and lh: "length hs = Suc (length ?as)" and h0: "hs ! 0 = initial_history state"
    and steps: "\<forall>i < length ?as.
            calls ! i = \<lparr> call_agent = fst (?as ! i),
                           call_message = conversation_prompt (join newline (last10 (hs ! i))),
                           call_context = join newline (last10 (hs ! i)) \<rparr>
            \<and> hs ! Suc i = hs ! i @ [transcript_line (fst (?as ! i)) (reply_text (invoke (snd (?as ! i)) (calls ! i)))]"
    by blast
  have cs: "snd (step_2_5_debate self state rounds) = calls"
    by (simp add: debate_calls_alt st)
  have each: "call_agent (calls ! i) = agent_names ! (i mod 4)
            \<and> call_context (calls ! i) = join newline (last10 (hs ! i))
            \<and> call_message (calls ! i) = conversation_prompt (join newline (last10 (hs ! i)))
            \<and> (\<exists>ag. (call_agent (calls ! i), ag) \<in> set (agents_of self)
                  \<and> hs ! Suc i = hs ! i @ [transcript_line (call_agent (calls ! i)) (reply_text (invoke ag (calls ! i)))])"
    if i: "i < 4 * rounds" for i
  proof -
    from i len_as have i': "i < length ?as" by simp
    have l4: "length (agents_of self) = 4" by (simp add: agents_of_def)
    have ne: "agents_of self \<noteq> []" by (simp add: agents_of_def)
    from i have "i < rounds * length (agents_of self)" by (simp add: l4 mult.commute)
    from nth_concat_replicate[OF ne this] have nth: "?as ! i = agents_of self ! (i mod 4)"
      by (simp add: l4)
    have m: "i mod 4 < length (agents_of self)" by (simp add: l4)
    then have mem: "agents_of self ! (i mod 4) \<in> set (agents_of self)" by (rule nth_mem)
    have name: "fst (agents_of self ! (i mod 4)) = agent_names ! (i mod 4)"
      using nth_map[OF m, of fst] by (simp only: agents_of_names)
    from steps i' have c: "calls ! i = \<lparr> call_agent = fst (?as ! i),
                           call_message = conversation_prompt (join newline (last10 (hs ! i))),
                           call_context = join newline (last10 (hs ! i)) \<rparr>"
      and nx: "hs ! Suc i = hs ! i @ [transcript_line (fst (?as ! i)) (reply_text (invoke (snd (?as ! i)) (calls ! i)))]"
      by blast+
    from c have ca: "call_agent (calls ! i) = fst (?as ! i)"
      and cc: "call_context (calls ! i) = join newline (last10 (hs ! i))"
      and cm: "call_message (calls ! i) = conversation_prompt (join newline (last10 (hs ! i)))"
      by simp_all
    have "(call_agent (calls ! i), snd (?as ! i)) \<in> set (agents_of self)"
      using mem by (simp add: ca nth)
    moreover have "hs ! Suc i = hs ! i @ [transcript_line (call_agent (calls ! i)) (reply_text (invoke (snd (?as ! i)) (calls ! i)))]"
      using nx by (simp only: ca)
    ultimately have ex: "\<exists>ag. (call_agent (calls ! i), ag) \<in> set (agents_of self)
                  \<and> hs ! Suc i = hs ! i @ [transcript_line (call_agent (calls ! i)) (reply_text (invoke ag (calls ! i)))]"
      by blast
    from ca nth name have "call_agent (calls ! i) = agent_names ! (i mod 4)" by simp
    with cc cm ex show ?thesis by blast
  qed
  have lhs: "length hs = Suc (4 * rounds)" using lh len_as by simp
  have lcs: "length calls = 4 * rounds" using lc len_as by simp
  have "\<forall>i < 4 * rounds. call_agent (calls ! i) = agent_names ! (i mod 4)
            \<and> call_context (calls ! i) = join newline (last10 (hs ! i))
            \<and> call_message (calls ! i) = conversation_prompt (join newline (last10 (hs ! i)))
            \<and> (\<exists>ag. (call_agent (calls ! i), ag) \<in> set (agents_of self)
                  \<and> hs ! Suc i = hs ! i @ [transcript_line (call_agent (calls ! i)) (reply_text (invoke ag (calls ! i)))])"
    using each by blast
  with lhs h0 lcs show ?thesis
    unfolding cs by blast
qed

lemma debate_second_call:
  assumes "0 < rounds"
  shows "call_context (snd (step_2_5_debate self state rounds) ! 0) = join newline (last10 (initial_history state))"
    and "call_context (snd (step_2_5_debate self state rounds) ! Suc 0)
     = join newline (last10 (initial_history state
          @ [transcript_line ''Elon'' (reply_text (invoke (visionary self) (snd (step_2_5_debate self state rounds) ! 0)))]))"
proof -
  let ?cs = "snd (step_2_5_debate self state rounds)"
  from debate_calls_chain[of rounds state self] obtain hs where
    h0: "hs ! 0 = initial_history state"
    and steps: "\<forall>i < 4 * rounds.
            call_agent (?cs ! i) = agent_names ! (i mod 4)
            \<and> call_context (?cs ! i) = join newline (last10 (hs ! i))
            \<and> call_message (?cs ! i) = conversation_prompt (join newline (last10 (hs ! i)))
            \<and> (\<exists>ag. (call_agent (?cs ! i), ag) \<in> set (agents_of self)
                  \<and> hs ! Suc i = hs ! i @ [transcript_line (call_agent (?cs ! i)) (reply_text (invoke ag (?cs ! i)))])"
    by blast
  from assms have i0: "0 < 4 * rounds" and i1: "Suc 0 < 4 * rounds" by simp_all
  from steps i0 have a0: "call_agent (?cs ! 0) = agent_names ! (0 mod 4)"
    and c0: "call_context (?cs ! 0) = join newline (last10 (hs ! 0))"
    and ex: "\<exists>ag. (call_agent (?cs ! 0), ag) \<in> set (agents_of self)
                  \<and> hs ! Suc 0 = hs ! 0 @ [transcript_line (call_agent (?cs ! 0)) (reply_text (invoke ag (?cs ! 0)))]"
    by blast+
  from a0 have elon: "call_agent (?cs ! 0) = ''Elon''" by (simp add: agent_names_def)
  from ex obtain ag where ag: "(''Elon'', ag) \<in> set (agents_of self)"
    and h1: "hs ! Suc 0 = hs ! 0 @ [transcript_line ''Elon'' (reply_text (invoke ag (?cs ! 0)))]"
    unfolding elon by blast
  have "(''Elon'', visionary self) \<in> set (agents_of self)" by (simp add: agents_of_def)
  with ag have "ag = visionary self" using agents_of_unique by blast
  with h1 h0 have h1': "hs ! Suc 0 = initial_history state
          @ [transcript_line ''Elon'' (reply_text (invoke (visionary self) (?cs ! 0)))]"
    by simp
  from c0 h0 show "call_context (?cs ! 0) = join newline (last10 (initial_history state))" by simp
  from steps i1 have "call_context (?cs ! Suc 0) = join newline (last10 (hs ! Suc 0))" by blast
  with h1' show "call_context (?cs ! Suc 0)
     = join newline (last10 (initial_history state
          @ [transcript_line ''Elon'' (reply_text (invoke (visionary self) (?cs ! 0)))]))"
    by simp
qed

text \<open>
  C2. In a round of group chat (\<^verbatim>\<open>run_one_round\<close>) the four personas are given the same
  context, the last ten lines of the history as it stands when the round starts, and the
  same prompt computed from it: no reply of the round reaches another persona of the round.
  The multi-round debate step (\<^verbatim>\<open>step_2_5_debate\<close>) calls the personas one after another, in
  the order Elon, Sam, Sheryl, Ray in every round, on a history that starts as the lines of
  the initial responses and grows by one line after every call, the reply of the persona
  just called or the text of its error: each persona is given the last ten lines of the
  history at its own turn, so that the second call of a round already sees the reply
  of the first.
\<close>

theorem round_context_is_a_snapshot:
  "(\<forall>c \<in> set (round_calls (run_one_round self latency h f)).
       call_context c = join newline (last10 h)
       \<and> call_message c = (if f then first_round_prompt h else later_round_prompt (join newline (last10 h))))
   \<and> map call_agent (round_calls (run_one_round self latency h f)) = [''Elon'', ''Sam'', ''Sheryl'', ''Ray'']
   \<and> (\<exists>hs. length hs = Suc (4 * rounds) \<and> hs ! 0 = initial_history state
         \<and> length (snd (step_2_5_debate self state rounds)) = 4 * rounds
         \<and> (\<forall>i < 4 * rounds.
              call_agent (snd (step_2_5_debate self state rounds) ! i) = agent_names ! (i mod 4)
              \<and> call_context (snd (step_2_5_debate self state rounds) ! i) = join newline (last10 (hs ! i))
              \<and> call_message (snd (step_2_5_debate self state rounds) ! i) = conversation_prompt (join newline (last10 (hs ! i)))
              \<and> (\<exists>ag. (call_agent (snd (step_2_5_debate self state rounds) ! i), ag) \<in> set (agents_of self)
                    \<and> hs ! Suc i = hs ! i @ [transcript_line (call_agent (snd (step_2_5_debate self state rounds) ! i))
                                                 (reply_text (invoke ag (snd (step_2_5_debate self state rounds) ! i)))])))
   \<and> (0 < rounds \<longrightarrow>
         call_context (snd (step_2_5_debate self state rounds) ! 0) = join newline (last10 (initial_history state))
         \<and> call_context (snd (step_2_5_debate self state rounds) ! Suc 0)
             = join newline (last10 (initial_history state
                 @ [transcript_line ''Elon'' (reply_text (invoke (visionary self) (snd (step_2_5_debate self state rounds) ! 0)))])))"
proof -
  have calls: "round_calls (run_one_round self latency h f) = map (round_call h f) agent_names"
    by (rule run_one_round_received(3))
  have 1: "\<forall>c \<in> set (round_calls (run_one_round self latency h f)).
       call_context c = join newline (last10 h)
       \<and> call_message c = (if f then first_round_prompt h else later_round_prompt (join newline (last10 h)))"
    unfolding calls by (simp add: round_call_def Let_def)
  have 2: "map call_agent (round_calls (run_one_round self latency h f)) = [''Elon'', ''Sam'', ''Sheryl'', ''Ray'']"
    unfolding calls by (simp add: round_call_def Let_def agent_names_def)
  have 4: "0 < rounds \<longrightarrow>
         call_context (snd (step_2_5_debate self state rounds) ! 0) = join newline (last10 (initial_history state))
         \<and> call_context (snd (step_2_5_debate self state rounds) ! Suc 0)
             = join newline (last10 (initial_history state
                 @ [transcript_line ''Elon'' (reply_text (invoke (visionary self) (snd (step_2_5_debate self state rounds) ! 0)))]))"
    using debate_second_call by blast
  show ?thesis
    apply (intro conjI)
    apply (rule 1)
    apply (rule 2)
    apply (rule debate_calls_chain)
    apply (rule 4)
    done
qed

theorem round_context_is_a_snapshot_witness:
  "hd (round_calls (run_one_round council (\<lambda>_. 5) [''You: hi''] False))
       \<in> set (round_calls (run_one_round council (\<lambda>_. 5) [''You: hi''] False))
   \<and> last (round_calls (run_one_round council (\<lambda>_. 5) [''You: hi''] False))
       \<in> set (round_calls (run_one_round council (\<lambda>_. 5) [''You: hi''] False))
   \<and> call_agent (hd (round_calls (run_one_round council (\<lambda>_. 5) [''You: hi''] False))) = ''Elon''
   \<and> call_agent (last (round_calls (run_one_round council (\<lambda>_. 5) [''You: hi''] False))) = ''Ray''
   \<and> call_context (hd (round_calls (run_one_round council (\<lambda>_. 5) [''You: hi''] False))) = ''You: hi''
   \<and> call_context (last (round_calls (run_one_round council (\<lambda>_. 5) [''You: hi''] False))) = ''You: hi''
   \<and> (0::nat) < 1
   \<and> call_context (snd (step_2_5_debate council (step_1_broadcast ''p'') 1) ! 0) = []
   \<and> call_context (snd (step_2_5_debate council (step_1_broadcast ''p'') 1) ! Suc 0) = ''Elon: go''"
proof -
  let ?r = "run_one_round council (\<lambda>_. 5) [''You: hi''] False"
  let ?cs = "snd (step_2_5_debate council (step_1_broadcast ''p'') 1)"
  note inst = round_context_is_a_snapshot[where self = council and latency = "\<lambda>_. 5" and h = "[''You: hi'']"
      and f = False and state = "step_1_broadcast ''p''" and rounds = 1]
  from inst have names: "map call_agent (round_calls ?r) = [''Elon'', ''Sam'', ''Sheryl'', ''Ray'']"
    by (elim conjE)
  then have ne: "round_calls ?r \<noteq> []" by auto
  then have hd_mem: "hd (round_calls ?r) \<in> set (round_calls ?r)"
    and last_mem: "last (round_calls ?r) \<in> set (round_calls ?r)"
    by simp_all
  from names ne have hd_name: "call_agent (hd (round_calls ?r)) = ''Elon''"
    by (simp add: hd_map[symmetric])
  from names ne have last_name: "call_agent (last (round_calls ?r)) = ''Ray''"
    by (simp add: last_map[symmetric])
  from inst have ctx: "\<forall>c \<in> set (round_calls ?r).
       call_context c = join newline (last10 [''You: hi''])
       \<and> call_message c = (if False then first_round_prompt [''You: hi''] else later_round_prompt (join newline (last10 [''You: hi''])))"
    by (elim conjE)
  have j: "join newline (last10 [''You: hi'']) = ''You: hi''"
    by (simp add: last10_def)
  from ctx hd_mem have hd_ctx: "call_context (hd (round_calls ?r)) = ''You: hi''"
    unfolding j by blast
  from ctx last_mem have last_ctx: "call_context (last (round_calls ?r)) = ''You: hi''"
    unfolding j by blast
  have pos: "(0::nat) < 1" by simp
  have h0: "initial_history (step_1_broadcast ''p'') = []"
    by (simp add: initial_history_def step_1_broadcast_def AGENT_NAME_MAPPING_def)
  have go: "invoke (visionary council) c = Returned ''go''" for c
    by (simp add: council_def init_def say_def invoke_def)
  from inst pos have "call_context (?cs ! 0) = join newline (last10 (initial_history (step_1_broadcast ''p'')))
         \<and> call_context (?cs ! Suc 0)
             = join newline (last10 (initial_history (step_1_broadcast ''p'')
                 @ [transcript_line ''Elon'' (reply_text (invoke (visionary council) (?cs ! 0)))]))"
    by blast
  then have c0: "call_context (?cs ! 0) = []" and c1: "call_context (?cs ! Suc 0) = ''Elon: go''"
    by (simp_all add: h0 go reply_text_def transcript_line_def last10_def)
  from hd_mem last_mem hd_name last_name hd_ctx last_ctx pos c0 c1 show ?thesis
    by (intro conjI)
qed

theorem debate_contexts_differ:
  "map call_agent (snd (step_2_5_debate council (step_1_broadcast ''p'') 1)) = [''Elon'', ''Sam'', ''Sheryl'', ''Ray'']
   \<and> invoke (visionary council) (snd (step_2_5_debate council (step_1_broadcast ''p'') 1) ! 0) = Returned ''go''
   \<and> map call_context (snd (step_2_5_debate council (step_1_broadcast ''p'') 1))
       = [[], ''Elon: go'', ''Elon: go'' @ newline @ ''Sam: wait'',
          ''Elon: go'' @ newline @ ''Sam: wait'' @ newline @ ''Sheryl: Error: boom'']"
proof -
  have "map call_agent (snd (step_2_5_debate council (step_1_broadcast ''p'') 1)) = [''Elon'', ''Sam'', ''Sheryl'', ''Ray'']"
    by code_simp
  moreover have "invoke (visionary council) (snd (step_2_5_debate council (step_1_broadcast ''p'') 1) ! 0) = Returned ''go''"
    by (simp add: council_def init_def say_def invoke_def)
  moreover have "map call_context (snd (step_2_5_debate council (step_1_broadcast ''p'') 1))
       = [[], ''Elon: go'', ''Elon: go'' @ newline @ ''Sam: wait'',
          ''Elon: go'' @ newline @ ''Sam: wait'' @ newline @ ''Sheryl: Error: boom'']"
    by code_simp
  ultimately show ?thesis by (intro conjI)
qed

end
